theory Spec2Isabelle
  imports Complex_Main "HOL-Library.AList" "HOL-Library.Char_ord" "HOL-Library.List_Lexorder"
begin

section \<open>Python values\<close>

text \<open>
  A Python \<open>str\<close> is a \<open>string\<close>: each \<open>char\<close> stands for the character with code point
  \<open>of_char c\<close> (U+0000 to U+00FF). Characters beyond U+00FF are not in this model. On this
  range the character classes used below (\<open>str.isalnum\<close>, \<open>str.isspace\<close>, the white space
  and digits \<open>int()\<close> accepts, \<open>str.lower\<close>) are written out in full.

  A \<open>float\<close> is a finite value together with the text \<open>repr()\<close> gives for it: the program
  only tests a float for truth, converts it with \<open>int()\<close> and \<open>str()\<close>, and hashes it as a
  dictionary key. The text is never empty, so it is kept as its first character and the
  rest: \<open>2.5\<close> is \<open>SFloat (5/2) CHR ''2'' ''.5''\<close>. \<open>SNaN\<close> is the float NaN, which pandas puts
  into a blank cell (and \<open>json.load\<close> accepts as a literal): it counts as true, its text is
  \<open>nan\<close>, and \<open>int()\<close> refuses it. The infinities are not in this model.
\<close>

datatype pyerror = ValueError | TypeError | AttributeError | EOFError | OSError

datatype scalar =
  SNone | SBool bool | SInt int | SFloat rat char string | SNaN | SStr string

datatype pyval = Atom scalar | PList "pyval list" | PDict "(string \<times> pyval) list"

text \<open>Truth value testing, as \<open>or\<close> and \<open>not\<close> apply it.\<close>

fun scalar_truthy :: "scalar \<Rightarrow> bool" where
  "scalar_truthy SNone = False"
| "scalar_truthy (SBool b) = b"
| "scalar_truthy (SInt i) = (i \<noteq> 0)"
| "scalar_truthy (SFloat q c cs) = (q \<noteq> 0)"
| "scalar_truthy SNaN = True"
| "scalar_truthy (SStr s) = (s \<noteq> [])"

fun truthy :: "pyval \<Rightarrow> bool" where
  "truthy (Atom a) = scalar_truthy a"
| "truthy (PList xs) = (xs \<noteq> [])"
| "truthy (PDict d) = (d \<noteq> [])"

subsection \<open>\<open>str()\<close> of a scalar\<close>

fun str_nat :: "nat \<Rightarrow> string" where
  "str_nat n = (if n < 10 then [char_of (48 + n)]
                else str_nat (n div 10) @ [char_of (48 + n mod 10)])"

declare str_nat.simps [simp del]

definition str_int :: "int \<Rightarrow> string" where
  "str_int i = (if i < 0 then CHR ''-'' # str_nat (nat (- i)) else str_nat (nat i))"

fun py_str :: "scalar \<Rightarrow> string" where
  "py_str SNone = ''None''"
| "py_str (SBool b) = (if b then ''True'' else ''False'')"
| "py_str (SInt i) = str_int i"
| "py_str (SFloat q c cs) = c # cs"
| "py_str SNaN = ''nan''"
| "py_str (SStr s) = s"

subsection \<open>\<open>int()\<close>\<close>

text \<open>
  \<open>int(s)\<close> for a string, base 10: white space is skipped at both ends, then an optional
  sign, then decimal digits, where single underscores may stand between digits. Anything
  else is \<open>ValueError\<close>. (The limit of 4300 digits that CPython 3.11 added is not modelled.)
\<close>

definition int_space :: "char \<Rightarrow> bool" where
  "int_space c = (let n = (of_char c :: nat) in (9 \<le> n \<and> n \<le> 13) \<or> n = 32 \<or> n = 133 \<or> n = 160)"

definition is_digit :: "char \<Rightarrow> bool" where
  "is_digit c = (let n = (of_char c :: nat) in 48 \<le> n \<and> n \<le> 57)"

definition digit_val :: "char \<Rightarrow> nat" where
  "digit_val c = of_char c - 48"

fun digits_value :: "nat \<Rightarrow> string \<Rightarrow> nat option" where
  "digits_value acc [] = Some acc"
| "digits_value acc (c # cs) =
     (if is_digit c then digits_value (10 * acc + digit_val c) cs
      else if c = CHR ''_'' then
        (case cs of
           [] \<Rightarrow> None
         | d # ds \<Rightarrow> if is_digit d then digits_value (10 * acc + digit_val d) ds else None)
      else None)"

definition parse_digits :: "string \<Rightarrow> nat option" where
  "parse_digits s =
     (case s of
        [] \<Rightarrow> None
      | c # cs \<Rightarrow> if is_digit c then digits_value (digit_val c) cs else None)"

definition strip_with :: "(char \<Rightarrow> bool) \<Rightarrow> string \<Rightarrow> string" where
  "strip_with p s = rev (dropWhile p (rev (dropWhile p s)))"

definition int_of_str :: "string \<Rightarrow> int option" where
  "int_of_str s =
     (case strip_with int_space s of
        [] \<Rightarrow> None
      | c # cs \<Rightarrow>
          if c = CHR ''-'' then map_option (\<lambda>n. - int n) (parse_digits cs)
          else if c = CHR ''+'' then map_option int (parse_digits cs)
          else map_option int (parse_digits (c # cs)))"

definition rat_trunc :: "rat \<Rightarrow> int" where
  "rat_trunc q = (if q < 0 then - \<lfloor>- q\<rfloor> else \<lfloor>q\<rfloor>)"

fun py_int :: "scalar \<Rightarrow> pyerror + int" where
  "py_int SNone = Inl TypeError"
| "py_int (SBool b) = Inr (if b then 1 else 0)"
| "py_int (SInt i) = Inr i"
| "py_int (SFloat q c cs) = Inr (rat_trunc q)"
| "py_int SNaN = Inl ValueError"
| "py_int (SStr s) = (case int_of_str s of None \<Rightarrow> Inl ValueError | Some n \<Rightarrow> Inr n)"

section \<open>The invoice normalizer\<close>

text \<open>
  \<open>invoices\<close> is the dictionary the function builds. Python dictionaries keep insertion
  order and identify keys up to \<open>==\<close>, so \<open>True\<close>, \<open>1\<close> and \<open>1.0\<close> are one key: a key is
  kept in the form \<open>pykey\<close>, and the dictionary is an association list updated with
  \<open>AList.update\<close> (a new key goes to the end, an old one keeps its place). The NaN that
  \<open>json.load\<close> returns is one object, so it is one key, \<open>KNaN\<close>.
\<close>

datatype pykey = KNone | KNum rat | KNaN | KStr string

record item =
  product :: pyval
  price :: pyval
  qty :: pyval

type_synonym invoices = "(pykey \<times> item list) list"

type_synonym row = "(string \<times> scalar) list"

text \<open>What \<open>load_csv\<close> and \<open>load_json\<close> hand over. \<open>main\<close> loads with \<open>load_json\<close> exactly
  when the suffix is not \<open>.csv\<close>, and every data file has the suffix \<open>.csv\<close> or \<open>.json\<close>, so
  the test \<open>ext == ".json"\<close> of \<open>parse_invoices_from_data\<close> is the tag of the loaded data.\<close>

datatype loaded = CsvData "row list" | JsonData pyval

subsection \<open>CSV branch\<close>

definition row_get :: "row \<Rightarrow> string \<Rightarrow> scalar" where
  "row_get r k = (case map_of r k of None \<Rightarrow> SNone | Some v \<Rightarrow> v)"

definition row_get_default :: "row \<Rightarrow> string \<Rightarrow> scalar \<Rightarrow> scalar" where
  "row_get_default r k d = (case map_of r k of None \<Rightarrow> d | Some v \<Rightarrow> v)"

text \<open>\<open>row.get("invoice_id") or row.get("id") or ""\<close>\<close>

definition csv_id_value :: "row \<Rightarrow> scalar" where
  "csv_id_value r =
     (if scalar_truthy (row_get r ''invoice_id'') then row_get r ''invoice_id''
      else if scalar_truthy (row_get r ''id'') then row_get r ''id''
      else SStr [])"

definition csv_iid :: "row \<Rightarrow> string" where
  "csv_iid r = py_str (csv_id_value r)"

definition csv_item :: "row \<Rightarrow> pyerror + item" where
  "csv_item r =
     (case py_int (row_get_default r ''qty'' (row_get_default r ''quantity'' (SInt 1))) of
        Inl e \<Rightarrow> Inl e
      | Inr n \<Rightarrow>
          Inr \<lparr>product = Atom (SStr (py_str
                   (row_get_default r ''product'' (row_get_default r ''name'' (SStr []))))),
               price = Atom (row_get_default r ''price'' (SInt 0)),
               qty = Atom (SInt n)\<rparr>)"

text \<open>\<open>if iid not in invoices: invoices[iid] = []\<close> and then \<open>invoices[iid].append(item)\<close>\<close>

definition lookup_items :: "invoices \<Rightarrow> pykey \<Rightarrow> item list" where
  "lookup_items invs k = (case map_of invs k of None \<Rightarrow> [] | Some its \<Rightarrow> its)"

definition append_item :: "pykey \<Rightarrow> item \<Rightarrow> invoices \<Rightarrow> invoices" where
  "append_item k it invs =
     (let invs1 = (if map_of invs k = None then AList.update k [] invs else invs)
      in AList.update k (lookup_items invs1 k @ [it]) invs1)"

fun parse_csv :: "invoices \<Rightarrow> row list \<Rightarrow> pyerror + invoices" where
  "parse_csv invs [] = Inr invs"
| "parse_csv invs (r # rs) =
     (if csv_iid r = [] then parse_csv invs rs
      else case csv_item r of
             Inl e \<Rightarrow> Inl e
           | Inr it \<Rightarrow> parse_csv (append_item (KStr (csv_iid r)) it invs) rs)"

subsection \<open>JSON branch\<close>

definition dict_get :: "(string \<times> pyval) list \<Rightarrow> string \<Rightarrow> pyval" where
  "dict_get d k = (case map_of d k of None \<Rightarrow> Atom SNone | Some v \<Rightarrow> v)"

definition dict_get_default :: "(string \<times> pyval) list \<Rightarrow> string \<Rightarrow> pyval \<Rightarrow> pyval" where
  "dict_get_default d k v0 = (case map_of d k of None \<Rightarrow> v0 | Some v \<Rightarrow> v)"

text \<open>\<open>inv.get("invoice_id") or inv.get("id") or str(len(invoices))\<close>\<close>

definition json_iid :: "nat \<Rightarrow> (string \<times> pyval) list \<Rightarrow> pyval" where
  "json_iid n d =
     (if truthy (dict_get d ''invoice_id'') then dict_get d ''invoice_id''
      else if truthy (dict_get d ''id'') then dict_get d ''id''
      else Atom (SStr (str_nat n)))"

text \<open>One element of the list comprehension; \<open>it.get\<close> exists on a dictionary only.\<close>

fun json_item :: "pyval \<Rightarrow> pyerror + item" where
  "json_item (PDict d) =
     Inr \<lparr>product = dict_get_default d ''product'' (dict_get_default d ''name'' (Atom (SStr []))),
          price = dict_get_default d ''price'' (Atom (SInt 0)),
          qty = dict_get_default d ''qty'' (dict_get_default d ''quantity'' (Atom (SInt 1)))\<rparr>"
| "json_item (PList xs) = Inl AttributeError"
| "json_item (Atom a) = Inl AttributeError"

text \<open>\<open>for it in items\<close>: a list gives its elements, a dictionary its keys, a string its
  characters; nothing else can be iterated.\<close>

fun py_iter :: "pyval \<Rightarrow> pyerror + pyval list" where
  "py_iter (PList xs) = Inr xs"
| "py_iter (PDict d) = Inr (map (\<lambda>kv. Atom (SStr (fst kv))) d)"
| "py_iter (Atom (SStr s)) = Inr (map (\<lambda>c. Atom (SStr [c])) s)"
| "py_iter (Atom a) = Inl TypeError"

fun map_err :: "('a \<Rightarrow> pyerror + 'b) \<Rightarrow> 'a list \<Rightarrow> pyerror + 'b list" where
  "map_err f [] = Inr []"
| "map_err f (x # xs) =
     (case f x of
        Inl e \<Rightarrow> Inl e
      | Inr y \<Rightarrow> (case map_err f xs of Inl e \<Rightarrow> Inl e | Inr ys \<Rightarrow> Inr (y # ys)))"

text \<open>Hashing the key of \<open>invoices[iid] = ...\<close>: lists and dictionaries are unhashable.\<close>

fun key_of :: "pyval \<Rightarrow> pyerror + pykey" where
  "key_of (Atom SNone) = Inr KNone"
| "key_of (Atom (SBool b)) = Inr (KNum (if b then 1 else 0))"
| "key_of (Atom (SInt i)) = Inr (KNum (of_int i))"
| "key_of (Atom (SFloat q c cs)) = Inr (KNum q)"
| "key_of (Atom SNaN) = Inr KNaN"
| "key_of (Atom (SStr s)) = Inr (KStr s)"
| "key_of (PList xs) = Inl TypeError"
| "key_of (PDict d) = Inl TypeError"

text \<open>The body of the loop up to the assignment: the items (a list comprehension, which
  is evaluated first) and the key under which they are stored.\<close>

fun json_entry :: "nat \<Rightarrow> pyval \<Rightarrow> pyerror + (pykey \<times> item list)" where
  "json_entry n (PDict d) =
     (case py_iter (dict_get_default d ''items'' (PList [PDict d])) of
        Inl e \<Rightarrow> Inl e
      | Inr its \<Rightarrow>
          (case map_err json_item its of
             Inl e \<Rightarrow> Inl e
           | Inr lst \<Rightarrow>
               (case key_of (json_iid n d) of
                  Inl e \<Rightarrow> Inl e
                | Inr k \<Rightarrow> Inr (k, lst))))"
| "json_entry n (PList xs) = Inl AttributeError"
| "json_entry n (Atom a) = Inl AttributeError"

definition json_step :: "invoices \<Rightarrow> pyval \<Rightarrow> pyerror + invoices" where
  "json_step invs x =
     (case json_entry (length invs) x of
        Inl e \<Rightarrow> Inl e
      | Inr kl \<Rightarrow> Inr (AList.update (fst kl) (snd kl) invs))"

fun parse_json :: "invoices \<Rightarrow> pyval list \<Rightarrow> pyerror + invoices" where
  "parse_json invs [] = Inr invs"
| "parse_json invs (x # xs) =
     (case json_step invs x of Inl e \<Rightarrow> Inl e | Inr invs' \<Rightarrow> parse_json invs' xs)"

definition default_item :: item where
  "default_item = \<lparr>product = Atom (SStr ''-''), price = Atom (SInt 0), qty = Atom (SInt 1)\<rparr>"

fun parse_invoices_from_data :: "loaded \<Rightarrow> pyerror + invoices" where
  "parse_invoices_from_data (JsonData (PList xs)) = parse_json [] xs"
| "parse_invoices_from_data (JsonData (PDict d)) = Inr [(KStr ''default'', [default_item])]"
| "parse_invoices_from_data (JsonData (Atom a)) = Inr [(KStr ''default'', [default_item])]"
| "parse_invoices_from_data (CsvData rows) = parse_csv [] rows"

text \<open>The test the code applies to a row (\<open>if not iid: continue\<close>): neither \<open>invoice_id\<close> nor
  \<open>id\<close> holds a value that counts as true.\<close>

definition csv_skipped :: "row \<Rightarrow> bool" where
  "csv_skipped r =
     (\<not> scalar_truthy (row_get r ''invoice_id'') \<and> \<not> scalar_truthy (row_get r ''id''))"

text \<open>A cell of a record is empty or absent when the record has no such field, or the
  field holds what a loader gives for a cell with nothing in it: \<open>None\<close> or the empty
  string from \<open>csv.DictReader\<close>, NaN from pandas. A row is blank when both id fields are
  empty or absent. A cell that holds 0 is not empty.\<close>

fun empty_cell :: "scalar option \<Rightarrow> bool" where
  "empty_cell None = True"
| "empty_cell (Some SNone) = True"
| "empty_cell (Some SNaN) = True"
| "empty_cell (Some (SStr s)) = (s = [])"
| "empty_cell (Some v) = False"

definition csv_blank :: "row \<Rightarrow> bool" where
  "csv_blank r = (empty_cell (map_of r ''invoice_id'') \<and> empty_cell (map_of r ''id''))"

text \<open>An item has an integer quantity when \<open>qty\<close> is an \<open>int\<close>.\<close>

fun is_int_value :: "pyval \<Rightarrow> bool" where
  "is_int_value (Atom (SInt i)) = True"
| "is_int_value v = False"

definition all_qty_int :: "invoices \<Rightarrow> bool" where
  "all_qty_int invs = list_all (\<lambda>kv. list_all (\<lambda>it. is_int_value (qty it)) (snd kv)) invs"

fun is_str_key :: "pykey \<Rightarrow> bool" where
  "is_str_key (KStr s) = (s \<noteq> [])"
| "is_str_key k = False"

text \<open>An element of a JSON array has an explicit id when \<open>invoice_id\<close> or \<open>id\<close> counts as
  true; otherwise its id is synthesized from the current number of invoices.\<close>

fun has_explicit_id :: "pyval \<Rightarrow> bool" where
  "has_explicit_id (PDict d) = (truthy (dict_get d ''invoice_id'') \<or> truthy (dict_get d ''id''))"
| "has_explicit_id v = False"

text \<open>The explicit id of an array element as a key, and the keys that are the text of a
  number of invoices (\<open>"0"\<close>, \<open>"1"\<close>, ...), which a synthesized id can equal.\<close>

fun explicit_key :: "pyval \<Rightarrow> pykey option" where
  "explicit_key (PDict d) =
     (if has_explicit_id (PDict d)
      then (case key_of (json_iid 0 d) of Inl e \<Rightarrow> None | Inr k \<Rightarrow> Some k)
      else None)"
| "explicit_key v = None"

definition is_count_key :: "pykey \<Rightarrow> bool" where
  "is_count_key k =
     (case k of
        KStr s \<Rightarrow> (case parse_digits s of None \<Rightarrow> False | Some j \<Rightarrow> str_nat j = s)
      | _ \<Rightarrow> False)"

text \<open>The item-like objects of one array element (\<open>inv.items\<close>, else the element itself), and
  the ids under which the elements of an array are stored, in order: the id of an
  element depends on how many keys there are when its turn comes.\<close>

fun element_items :: "pyval \<Rightarrow> pyval list" where
  "element_items (PDict d) =
     (case py_iter (dict_get_default d ''items'' (PList [PDict d])) of
        Inl e \<Rightarrow> []
      | Inr its \<Rightarrow> its)"
| "element_items v = []"

fun derived_ids :: "pykey list \<Rightarrow> pyval list \<Rightarrow> pykey list" where
  "derived_ids seen [] = []"
| "derived_ids seen (x # xs) =
     (case json_entry (length seen) x of
        Inl e \<Rightarrow> []
      | Inr kl \<Rightarrow>
          fst kl # derived_ids (if fst kl \<in> set seen then seen else seen @ [fst kl]) xs)"

section \<open>File discovery\<close>

text \<open>
  A directory is missing, or is not a directory, or holds entries; an entry has a name
  and is a regular file or not (\<open>Path.is_file\<close>). A path inside one directory is given by
  its name. \<open>sorted\<close> compares paths as pathlib orders them, and that depends on the host:
  a \<open>PosixPath\<close> is compared by its text, so the paths of one directory are ordered by name,
  character by character by code point (the order of \<open>string\<close> here); a \<open>WindowsPath\<close> is
  compared by its lower-cased text. \<open>sorted\<close> is stable, as \<open>sort_key\<close> is.
\<close>

datatype platform = Posix | Windows

datatype entry = Entry (name: string) (is_file: bool)

datatype directory = Missing | NotADirectory | Directory "entry list"

definition CSV_EXT :: "string list" where "CSV_EXT = [''.csv'']"
definition JSON_EXT :: "string list" where "JSON_EXT = [''.json'']"
definition HTML_EXT :: "string list" where "HTML_EXT = [''.html'']"

definition lower_char :: "char \<Rightarrow> char" where
  "lower_char c =
     (let n = (of_char c :: nat)
      in if (65 \<le> n \<and> n \<le> 90) \<or> (192 \<le> n \<and> n \<le> 214) \<or> (216 \<le> n \<and> n \<le> 222)
         then char_of (n + 32) else c)"

definition py_lower :: "string \<Rightarrow> string" where
  "py_lower s = map lower_char s"

fun path_key :: "platform \<Rightarrow> string \<Rightarrow> string" where
  "path_key Posix nm = nm"
| "path_key Windows nm = py_lower nm"

text \<open>\<open>PurePath.suffix\<close>: from the last dot of the name, unless that dot is the first or the
  last character of the name.\<close>

definition suffix :: "string \<Rightarrow> string" where
  "suffix nm =
     (let ext = takeWhile (\<lambda>c. c \<noteq> CHR ''.'') (rev nm)
      in if CHR ''.'' \<in> set nm \<and> ext \<noteq> [] \<and> length ext + 1 < length nm
         then CHR ''.'' # rev ext else [])"

definition has_ext :: "string list \<Rightarrow> entry \<Rightarrow> bool" where
  "has_ext exts f = (is_file f \<and> py_lower (suffix (name f)) \<in> set exts)"

fun collect_data_files ::
  "entry list \<Rightarrow> string list \<times> string list \<Rightarrow> string list \<times> string list" where
  "collect_data_files [] acc = acc"
| "collect_data_files (f # fs) (csv_files, json_files) =
     (if has_ext CSV_EXT f then collect_data_files fs (csv_files @ [name f], json_files)
      else if has_ext JSON_EXT f then collect_data_files fs (csv_files, json_files @ [name f])
      else collect_data_files fs (csv_files, json_files))"

fun get_data_files :: "platform \<Rightarrow> directory \<Rightarrow> pyerror + (string list \<times> string list)" where
  "get_data_files host Missing = Inr ([], [])"
| "get_data_files host NotADirectory = Inl OSError"
| "get_data_files host (Directory es) =
     Inr (collect_data_files (sort_key (\<lambda>f. path_key host (name f)) es) ([], []))"

fun get_templates :: "platform \<Rightarrow> directory \<Rightarrow> pyerror + string list" where
  "get_templates host Missing = Inr []"
| "get_templates host NotADirectory = Inl OSError"
| "get_templates host (Directory es) =
     Inr (map name (sort_key (\<lambda>f. path_key host (name f)) (filter (has_ext HTML_EXT) es)))"

text \<open>\<open>data_files = csv_files + json_files\<close>, the list \<open>main\<close> offers.\<close>

definition data_files_of :: "string list \<times> string list \<Rightarrow> string list" where
  "data_files_of p = fst p @ snd p"

section \<open>The interactive shell\<close>

subsection \<open>Menu selection\<close>

text \<open>
  The user's entries are the lines \<open>input()\<close> will return, in order; at the end of the
  input \<open>input()\<close> raises \<open>EOFError\<close>, which \<open>select_option\<close> does not catch. What is
  printed is kept as a list of events (the texts themselves are left out).
\<close>

datatype event =
  Prompt | Retry | Menu nat | Banner | NoDataFiles | NoTemplates | NoInvoices
  | Saved string | Opened

definition py_isspace :: "char \<Rightarrow> bool" where
  "py_isspace c =
     (let n = (of_char c :: nat)
      in (9 \<le> n \<and> n \<le> 13) \<or> (28 \<le> n \<and> n \<le> 32) \<or> n = 133 \<or> n = 160)"

text \<open>\<open>int(input(prompt).strip())\<close>: \<open>None\<close> stands for the \<open>ValueError\<close> that is caught.\<close>

definition read_choice :: "string \<Rightarrow> int option" where
  "read_choice s = int_of_str (strip_with py_isspace s)"

definition in_range :: "nat \<Rightarrow> string \<Rightarrow> bool" where
  "in_range max_num s =
     (case read_choice s of None \<Rightarrow> False | Some n \<Rightarrow> 1 \<le> n \<and> n \<le> int max_num)"

fun select_option :: "nat \<Rightarrow> string list \<Rightarrow> (pyerror + nat) \<times> string list \<times> event list" where
  "select_option max_num [] = (Inl EOFError, [], [Prompt])"
| "select_option max_num (s # rest) =
     (case read_choice s of
        None \<Rightarrow>
          (case select_option max_num rest of
             (r, rest', ev) \<Rightarrow> (r, rest', Prompt # Retry # ev))
      | Some n \<Rightarrow>
          if 1 \<le> n \<and> n \<le> int max_num then (Inr (nat (n - 1)), rest, [Prompt])
          else (case select_option max_num rest of
                  (r, rest', ev) \<Rightarrow> (r, rest', Prompt # Retry # ev)))"

subsection \<open>Output file name\<close>

definition py_isalnum :: "char \<Rightarrow> bool" where
  "py_isalnum c =
     (let n = (of_char c :: nat)
      in (48 \<le> n \<and> n \<le> 57) \<or> (65 \<le> n \<and> n \<le> 90) \<or> (97 \<le> n \<and> n \<le> 122)
         \<or> n = 170 \<or> n = 178 \<or> n = 179 \<or> n = 181 \<or> n = 185 \<or> n = 186
         \<or> (188 \<le> n \<and> n \<le> 190) \<or> (192 \<le> n \<and> n \<le> 214) \<or> (216 \<le> n \<and> n \<le> 246)
         \<or> (248 \<le> n \<and> n \<le> 255))"

definition safe_char :: "char \<Rightarrow> char" where
  "safe_char c = (if py_isalnum c \<or> c \<in> set ''-_'' then c else CHR ''_'')"

text \<open>\<open>"".join(... for c in invoice_id)\<close>: only a string can be iterated.\<close>

fun safe_id :: "pykey \<Rightarrow> pyerror + string" where
  "safe_id (KStr s) = Inr (map safe_char s)"
| "safe_id (KNum q) = Inl TypeError"
| "safe_id KNaN = Inl TypeError"
| "safe_id KNone = Inl TypeError"

definition output_path :: "pykey \<Rightarrow> pyerror + string" where
  "output_path invoice_id =
     (case safe_id invoice_id of
        Inl e \<Rightarrow> Inl e
      | Inr sid \<Rightarrow> Inr (''output/invoice_'' @ sid @ ''.pdf''))"

subsection \<open>\<open>main\<close>\<close>

text \<open>
  What \<open>main\<close> finds around it: the host, the three directories, the loaders, the template
  engine, the PDF engine and the viewer (each may raise), and the user's entries. A run
  ends with \<open>sys.exit(n)\<close>, or with an exception nobody handles, or by returning from
  \<open>main\<close>. \<open>sort_nan\<close> is the order in which the interpreter's sort leaves numbers one of
  which is NaN: it depends on the comparisons the sort happens to make.
\<close>

record env =
  host :: platform
  data_dir :: directory
  templates_dir :: directory
  output_dir :: directory
  load_csv :: "string \<Rightarrow> pyerror + row list"
  load_json :: "string \<Rightarrow> pyerror + pyval"
  render_html :: "string \<Rightarrow> pykey \<Rightarrow> item list \<Rightarrow> pyerror + string"
  generate_pdf :: "string \<Rightarrow> string \<Rightarrow> pyerror + unit"
  open_pdf :: "string \<Rightarrow> pyerror + unit"
  entries :: "string list"
  sort_nan :: "pykey list \<Rightarrow> pykey list"

datatype outcome = Exit nat | Unhandled pyerror | Finished









text \<open>From the selected invoice to the opened PDF (lines 245 to 257).\<close>

definition emit :: "env \<Rightarrow> string \<Rightarrow> invoices \<Rightarrow> pykey \<Rightarrow> outcome \<times> event list" where
  "emit e template_path invs invoice_id =
     (case render_html e template_path invoice_id (lookup_items invs invoice_id) of
        Inl x \<Rightarrow> (Unhandled x, [])
      | Inr html \<Rightarrow>
          (case output_path invoice_id of
             Inl x \<Rightarrow> (Unhandled x, [])
           | Inr path \<Rightarrow>
               (case generate_pdf e html path of
                  Inl x \<Rightarrow> (Unhandled x, [])
                | Inr u \<Rightarrow>
                    (case open_pdf e path of
                       Inl x \<Rightarrow> (Unhandled x, [Saved path])
                     | Inr u' \<Rightarrow> (Finished, [Saved path, Opened])))))"







section \<open>Properties of the normalizer\<close>

lemma str_nat_nonempty: "str_nat n \<noteq> []"
  by (subst str_nat.simps) simp

lemma py_str_truthy: "scalar_truthy v \<Longrightarrow> py_str v \<noteq> []"
  by (cases v) (auto simp: str_int_def str_nat_nonempty)

lemma csv_iid_empty_iff: "csv_iid r = [] \<longleftrightarrow> csv_skipped r"
  by (auto simp: csv_iid_def csv_id_value_def csv_skipped_def dest: py_str_truthy)

text \<open>For the records of \<open>csv.DictReader\<close>, whose cells are strings or \<open>None\<close>, the rows the
  code skips are the blank rows.\<close>

lemma csv_skipped_untyped:
  assumes "\<forall>k\<in>{''invoice_id'', ''id''}. \<forall>v. map_of r k = Some v \<longrightarrow> v = SNone \<or> (\<exists>s. v = SStr s)"
  shows "csv_skipped r \<longleftrightarrow> csv_blank r"
proof -
  have one: "\<not> scalar_truthy (row_get r k) \<longleftrightarrow> empty_cell (map_of r k)"
    if "\<forall>v. map_of r k = Some v \<longrightarrow> v = SNone \<or> (\<exists>s. v = SStr s)" for k
    using that by (cases "map_of r k") (auto simp: row_get_def)
  from assms one [of "''invoice_id''"] one [of "''id''"] show ?thesis
    by (simp add: csv_skipped_def csv_blank_def)
qed

lemma map_of_append_item:
  "map_of (append_item k it invs) = (map_of invs)(k \<mapsto> lookup_items invs k @ [it])"
  by (auto simp: append_item_def lookup_items_def Let_def update_conv' fun_eq_iff split: option.splits)

lemma lookup_append_item:
  "lookup_items (append_item k it invs) k' =
     (if k' = k then lookup_items invs k @ [it] else lookup_items invs k')"
  by (simp add: lookup_items_def map_of_append_item)

lemma keys_append_item: "fst ` set (append_item k it invs) = insert k (fst ` set invs)"
  by (auto simp: append_item_def Let_def dom_update)

lemma distinct_append_item:
  "distinct (map fst invs) \<Longrightarrow> distinct (map fst (append_item k it invs))"
  by (simp add: append_item_def Let_def distinct_update)

lemma parse_csv_error:
  "parse_csv invs rows = Inl e \<longleftrightarrow> map_err csv_item [r\<leftarrow>rows. \<not> csv_skipped r] = Inl e"
  by (induction rows arbitrary: invs) (auto simp: csv_iid_empty_iff split: sum.splits)

lemma parse_csv_groups:
  "parse_csv invs rows = Inr res \<Longrightarrow>
     \<exists>new. map_err csv_item [r\<leftarrow>rows. \<not> csv_skipped r \<and> KStr (csv_iid r) = k] = Inr new
        \<and> lookup_items res k = lookup_items invs k @ new"
proof (induction rows arbitrary: invs)
  case Nil
  then show ?case by simp
next
  case (Cons r rows)
  show ?case
  proof (cases "csv_skipped r")
    case True
    with Cons show ?thesis by (simp add: csv_iid_empty_iff)
  next
    case False
    then obtain it where it: "csv_item r = Inr it"
      and rest: "parse_csv (append_item (KStr (csv_iid r)) it invs) rows = Inr res"
      using Cons.prems by (auto simp: csv_iid_empty_iff split: sum.splits)
    from Cons.IH [OF rest] obtain new where
      new: "map_err csv_item [r\<leftarrow>rows. \<not> csv_skipped r \<and> KStr (csv_iid r) = k] = Inr new"
      and lk: "lookup_items res k = lookup_items (append_item (KStr (csv_iid r)) it invs) k @ new"
      by blast
    show ?thesis
      using False it new lk by (auto simp: lookup_append_item)
  qed
qed

lemma parse_csv_keys:
  "parse_csv invs rows = Inr res \<Longrightarrow>
     fst ` set res = fst ` set invs \<union> (\<lambda>r. KStr (csv_iid r)) ` {r \<in> set rows. \<not> csv_skipped r}"
proof (induction rows arbitrary: invs)
  case Nil
  then show ?case by simp
next
  case (Cons r rows)
  show ?case
  proof (cases "csv_skipped r")
    case True
    with Cons show ?thesis by (auto simp: csv_iid_empty_iff)
  next
    case False
    then obtain it where it: "csv_item r = Inr it"
      and rest: "parse_csv (append_item (KStr (csv_iid r)) it invs) rows = Inr res"
      using Cons.prems by (auto simp: csv_iid_empty_iff split: sum.splits)
    from Cons.IH [OF rest] False show ?thesis
      by (auto simp: keys_append_item)
  qed
qed

lemma parse_csv_distinct:
  "parse_csv invs rows = Inr res \<Longrightarrow> distinct (map fst invs) \<Longrightarrow> distinct (map fst res)"
  by (induction rows arbitrary: invs) (auto simp: distinct_append_item split: if_splits sum.splits)

lemma map_err_length: "map_err f xs = Inr ys \<Longrightarrow> length ys = length xs"
  by (induction xs arbitrary: ys) (auto split: sum.splits)


lemma map_err_source: "map_err f xs = Inr ys \<Longrightarrow> y \<in> set ys \<Longrightarrow> \<exists>x\<in>set xs. f x = Inr y"
  by (induction xs arbitrary: ys) (auto split: sum.splits)

lemma set_update_subset: "set (AList.update k v al) \<subseteq> insert (k, v) (set al)"
  by (induction al) auto

lemma length_update:
  "length (AList.update k v al) = (if k \<in> fst ` set al then length al else Suc (length al))"
  by (induction al) auto

lemma parse_json_append:
  "parse_json invs (ys @ zs) =
     (case parse_json invs ys of Inl e \<Rightarrow> Inl e | Inr m \<Rightarrow> parse_json m zs)"
  by (induction ys arbitrary: invs) (auto split: sum.splits)

lemma parse_json_distinct:
  "parse_json invs xs = Inr res \<Longrightarrow> distinct (map fst invs) \<Longrightarrow> distinct (map fst res)"
  by (induction xs arbitrary: invs) (auto simp: json_step_def distinct_update split: sum.splits)

lemma parse_json_keys_kept:
  "parse_json invs xs = Inr res \<Longrightarrow> fst ` set invs \<subseteq> fst ` set res"
proof (induction xs arbitrary: invs)
  case Nil
  then show ?case by simp
next
  case (Cons x xs)
  then obtain kl where "json_entry (length invs) x = Inr kl"
    and "parse_json (AList.update (fst kl) (snd kl) invs) xs = Inr res"
    by (auto simp: json_step_def split: sum.splits)
  then have "fst ` set (AList.update (fst kl) (snd kl) invs) \<subseteq> fst ` set res"
    using Cons.IH by blast
  then show ?case by (auto simp: dom_update)
qed

lemma parse_json_element:
  assumes "parse_json [] (ys @ x # zs) = Inr res"
  shows "\<exists>m k lst. parse_json [] ys = Inr m \<and> json_entry (length m) x = Inr (k, lst)
            \<and> parse_json [] (ys @ [x]) = Inr (AList.update k lst m)
            \<and> parse_json (AList.update k lst m) zs = Inr res"
  using assms by (auto simp: parse_json_append json_step_def split: sum.splits)

lemma parse_json_items:
  "parse_json invs xs = Inr res \<Longrightarrow> (k, its) \<in> set res \<Longrightarrow> it \<in> set its \<Longrightarrow>
     (\<exists>its0. (k, its0) \<in> set invs \<and> it \<in> set its0)
     \<or> (\<exists>x\<in>set xs. \<exists>n k' lst. json_entry n x = Inr (k', lst) \<and> it \<in> set lst)"
proof (induction xs arbitrary: invs)
  case Nil
  then show ?case by auto
next
  case (Cons x xs)
  then obtain kl where e: "json_entry (length invs) x = Inr kl"
    and rest: "parse_json (AList.update (fst kl) (snd kl) invs) xs = Inr res"
    by (auto simp: json_step_def split: sum.splits)
  from Cons.IH [OF rest Cons.prems(2,3)] show ?case
  proof
    assume "\<exists>its0. (k, its0) \<in> set (AList.update (fst kl) (snd kl) invs) \<and> it \<in> set its0"
    then obtain its0 where m: "(k, its0) \<in> set (AList.update (fst kl) (snd kl) invs)"
      and i: "it \<in> set its0" by blast
    from m set_update_subset have "(k, its0) = (fst kl, snd kl) \<or> (k, its0) \<in> set invs"
      by fastforce
    then show ?thesis
    proof
      assume "(k, its0) = (fst kl, snd kl)"
      with e i have "json_entry (length invs) x = Inr (k, its0)" by (cases kl) auto
      with i show ?thesis by auto
    next
      assume "(k, its0) \<in> set invs"
      with i show ?thesis by blast
    qed
  next
    assume "\<exists>x\<in>set xs. \<exists>n k' lst. json_entry n x = Inr (k', lst) \<and> it \<in> set lst"
    then show ?thesis by auto
  qed
qed

lemma json_entry_items:
  "json_entry n x = Inr (k, lst) \<Longrightarrow>
     \<exists>d. x = PDict d \<and> key_of (json_iid n d) = Inr k
        \<and> py_iter (dict_get_default d ''items'' (PList [PDict d])) = Inr (element_items x)
        \<and> map_err json_item (element_items x) = Inr lst"
  by (cases x) (auto split: sum.splits)

lemma json_item_fields:
  "json_item x = Inr it \<Longrightarrow>
     \<exists>d. x = PDict d
        \<and> product it = dict_get_default d ''product'' (dict_get_default d ''name'' (Atom (SStr [])))
        \<and> price it = dict_get_default d ''price'' (Atom (SInt 0))
        \<and> qty it = dict_get_default d ''qty'' (dict_get_default d ''quantity'' (Atom (SInt 1)))"
  by (cases x) auto

lemma parse_json_ids:
  "parse_json invs xs = Inr res \<Longrightarrow>
     length (derived_ids (map fst invs) xs) = length xs
     \<and> set (map fst res) = set (map fst invs) \<union> set (derived_ids (map fst invs) xs)"
proof (induction xs arbitrary: invs)
  case Nil
  then show ?case by simp
next
  case (Cons x xs)
  then obtain kl where e: "json_entry (length invs) x = Inr kl"
    and rest: "parse_json (AList.update (fst kl) (snd kl) invs) xs = Inr res"
    by (auto simp: json_step_def split: sum.splits)
  have m: "map fst (AList.update (fst kl) (snd kl) invs) =
      (if fst kl \<in> set (map fst invs) then map fst invs else map fst invs @ [fst kl])"
    by (simp add: update_keys del: set_map)
  from Cons.IH [OF rest] e m show ?case
    by (auto simp del: set_map)
qed

lemma digit_char: "k < 10 \<Longrightarrow> is_digit (char_of (48 + k)) \<and> digit_val (char_of (48 + k)) = k"
  by (simp add: is_digit_def digit_val_def)

lemma digits_value_snoc:
  "digits_value acc s = Some v \<Longrightarrow> is_digit c \<Longrightarrow>
     digits_value acc (s @ [c]) = Some (10 * v + digit_val c)"
proof (induction acc s rule: digits_value.induct)
  case (1 acc)
  then show ?case by simp
next
  case (2 acc a cs)
  then show ?case
    by (cases cs) (auto split: if_splits)
qed

lemma parse_digits_snoc:
  "parse_digits s = Some v \<Longrightarrow> is_digit c \<Longrightarrow> parse_digits (s @ [c]) = Some (10 * v + digit_val c)"
  by (cases s) (auto simp: parse_digits_def digits_value_snoc split: if_splits)

lemma parse_digits_str_nat: "parse_digits (str_nat n) = Some n"
proof (induction n rule: str_nat.induct)
  case (1 n)
  show ?case
  proof (cases "n < 10")
    case True
    then show ?thesis using digit_char [of n]
      by (subst str_nat.simps) (simp add: parse_digits_def)
  next
    case False
    with 1 have ih: "parse_digits (str_nat (n div 10)) = Some (n div 10)" by simp
    have d: "is_digit (char_of (48 + n mod 10))" "digit_val (char_of (48 + n mod 10)) = n mod 10"
      using digit_char [of "n mod 10"] by simp_all
    from parse_digits_snoc [OF ih d(1)] d(2) False show ?thesis
      by (subst str_nat.simps) simp
  qed
qed

lemma str_nat_inj: "str_nat a = str_nat b \<Longrightarrow> a = b"
  by (metis parse_digits_str_nat option.inject)

lemma is_count_key_iff: "is_count_key k \<longleftrightarrow> (\<exists>j. k = KStr (str_nat j))"
  by (auto simp: is_count_key_def parse_digits_str_nat split: pykey.splits option.splits)

lemma json_entry_key:
  "json_entry n x = Inr (k, lst) \<Longrightarrow>
     (has_explicit_id x \<and> explicit_key x = Some k)
     \<or> (\<not> has_explicit_id x \<and> explicit_key x = None \<and> k = KStr (str_nat n))"
  by (cases x) (auto simp: json_iid_def split: sum.splits if_splits)

lemma not_count_key_neq: "\<not> is_count_key k \<Longrightarrow> k \<noteq> KStr (str_nat j)"
  unfolding is_count_key_iff by blast

lemma count_keys_bounded_update:
  assumes b: "\<forall>k'\<in>fst ` set invs. \<forall>j. k' = KStr (str_nat j) \<longrightarrow> j < length invs"
    and k: "\<forall>j. k = KStr (str_nat j) \<longrightarrow> j \<le> length invs \<and> (j = length invs \<longrightarrow> k \<notin> fst ` set invs)"
  shows "\<forall>k'\<in>fst ` set (AList.update k lst invs). \<forall>j. k' = KStr (str_nat j)
            \<longrightarrow> j < length (AList.update k lst invs)"
proof (intro ballI allI impI)
  fix k' j
  assume k': "k' \<in> fst ` set (AList.update k lst invs)" and j: "k' = KStr (str_nat j)"
  have le: "length invs \<le> length (AList.update k lst invs)" by (simp add: length_update)
  from k' have "k' = k \<or> k' \<in> fst ` set invs" by (simp add: dom_update)
  then show "j < length (AList.update k lst invs)"
  proof
    assume eq: "k' = k"
    with j k have jl: "j \<le> length invs" and new: "j = length invs \<longrightarrow> k \<notin> fst ` set invs"
      by blast+
    show ?thesis
    proof (cases "j = length invs")
      case True
      with new have "k \<notin> fst ` set invs" by simp
      then have "length (AList.update k lst invs) = Suc (length invs)" by (simp add: length_update)
      with True show ?thesis by simp
    next
      case False
      with jl le show ?thesis by simp
    qed
  next
    assume "k' \<in> fst ` set invs"
    with b j have "j < length invs" by blast
    with le show ?thesis by simp
  qed
qed

lemma json_key_count_gen:
  "parse_json invs xs = Inr res \<Longrightarrow>
   \<forall>k\<in>fst ` set invs. \<forall>j. k = KStr (str_nat j) \<longrightarrow> j < length invs \<Longrightarrow>
   \<forall>x\<in>set xs. \<forall>k. explicit_key x = Some k \<longrightarrow> \<not> is_count_key k \<Longrightarrow>
   length res = length invs
      + card (set (List.map_filter explicit_key xs) - fst ` set invs)
      + length [x\<leftarrow>xs. \<not> has_explicit_id x]"
proof (induction xs arbitrary: invs)
  case Nil
  then show ?case by (simp add: List.map_filter_simps)
next
  case (Cons x xs)
  from Cons.prems(1) obtain k lst where e: "json_entry (length invs) x = Inr (k, lst)"
    and rest: "parse_json (AList.update k lst invs) xs = Inr res"
    by (auto simp: json_step_def split: sum.splits)
  let ?K = "fst ` set invs"
  let ?E = "set (List.map_filter explicit_key xs)"
  let ?n = "length [y\<leftarrow>xs. \<not> has_explicit_id y]"
  have keys: "fst ` set (AList.update k lst invs) = insert k ?K" by (simp add: dom_update)
  have fin: "finite ?E" by simp
  have tl: "\<forall>x\<in>set xs. \<forall>k. explicit_key x = Some k \<longrightarrow> \<not> is_count_key k"
    using Cons.prems(3) by simp
  have noc: "\<forall>k\<in>?E. \<not> is_count_key k"
    using tl by (auto simp: List.map_filter_def)
  from json_entry_key [OF e] show ?case
  proof
    assume a: "has_explicit_id x \<and> explicit_key x = Some k"
    with Cons.prems(3) have nk: "\<not> is_count_key k" by simp
    then have "\<forall>j. k = KStr (str_nat j) \<longrightarrow> j \<le> length invs \<and> (j = length invs \<longrightarrow> k \<notin> ?K)"
      using not_count_key_neq by blast
    from count_keys_bounded_update [OF Cons.prems(2) this]
    have inv: "\<forall>k'\<in>fst ` set (AList.update k lst invs). \<forall>j. k' = KStr (str_nat j)
                  \<longrightarrow> j < length (AList.update k lst invs)" .
    from Cons.IH [OF rest inv tl]
    have ih: "length res = length (AList.update k lst invs) + card (?E - insert k ?K) + ?n"
      unfolding keys .
    have E': "set (List.map_filter explicit_key (x # xs)) = insert k ?E"
      using a by (simp add: List.map_filter_simps)
    have F': "length [y\<leftarrow>x # xs. \<not> has_explicit_id y] = ?n" using a by simp
    show ?thesis
    proof (cases "k \<in> ?K")
      case True
      then have "insert k ?E - ?K = ?E - insert k ?K" by auto
      moreover from True have "length (AList.update k lst invs) = length invs"
        by (simp add: length_update)
      ultimately show ?thesis unfolding E' F' using ih by simp
    next
      case False
      then have "insert k ?E - ?K = insert k (?E - insert k ?K)" by auto
      then have "card (insert k ?E - ?K) = Suc (card (?E - insert k ?K))"
        using fin by simp
      moreover from False have "length (AList.update k lst invs) = Suc (length invs)"
        by (simp add: length_update)
      ultimately show ?thesis unfolding E' F' using ih by simp
    qed
  next
    assume a: "\<not> has_explicit_id x \<and> explicit_key x = None \<and> k = KStr (str_nat (length invs))"
    have kn: "k \<notin> ?K"
    proof
      assume "k \<in> ?K"
      with Cons.prems(2) a have "length invs < length invs" by blast
      then show False by simp
    qed
    have "is_count_key k" unfolding is_count_key_iff using a by blast
    with noc have ke: "k \<notin> ?E" by blast
    have "\<forall>j. k = KStr (str_nat j) \<longrightarrow> j \<le> length invs \<and> (j = length invs \<longrightarrow> k \<notin> ?K)"
    proof (intro allI impI)
      fix j assume "k = KStr (str_nat j)"
      with a have "str_nat j = str_nat (length invs)" by simp
      then have "j = length invs" by (rule str_nat_inj)
      with kn show "j \<le> length invs \<and> (j = length invs \<longrightarrow> k \<notin> ?K)" by simp
    qed
    from count_keys_bounded_update [OF Cons.prems(2) this]
    have inv: "\<forall>k'\<in>fst ` set (AList.update k lst invs). \<forall>j. k' = KStr (str_nat j)
                  \<longrightarrow> j < length (AList.update k lst invs)" .
    from Cons.IH [OF rest inv tl]
    have ih: "length res = length (AList.update k lst invs) + card (?E - insert k ?K) + ?n"
      unfolding keys .
    have E': "set (List.map_filter explicit_key (x # xs)) = ?E"
      using a by (simp add: List.map_filter_simps)
    have F': "length [y\<leftarrow>x # xs. \<not> has_explicit_id y] = Suc ?n" using a by simp
    from ke have "?E - insert k ?K = ?E - ?K" by auto
    moreover from kn have "length (AList.update k lst invs) = Suc (length invs)"
      by (simp add: length_update)
    ultimately show ?thesis unfolding E' F' using ih by simp
  qed
qed

lemma json_key_count:
  assumes "parse_json [] xs = Inr res"
    and "\<forall>x\<in>set xs. \<forall>k. explicit_key x = Some k \<longrightarrow> \<not> is_count_key k"
  shows "length res = card (set (List.map_filter explicit_key xs))
           + length [x\<leftarrow>xs. \<not> has_explicit_id x]"
  using json_key_count_gen [OF assms(1) _ assms(2)] by simp

lemma csv_item_fields:
  "csv_item r = Inr it \<Longrightarrow>
     \<exists>n. py_int (row_get_default r ''qty'' (row_get_default r ''quantity'' (SInt 1))) = Inr n
        \<and> qty it = Atom (SInt n)
        \<and> price it = Atom (row_get_default r ''price'' (SInt 0))"
  by (auto simp: csv_item_def split: sum.splits)

lemma parse_csv_item_source:
  assumes p: "parse_csv [] rows = Inr invs" and m: "(k, its) \<in> set invs" and i: "it \<in> set its"
  shows "\<exists>r\<in>set rows. \<not> csv_skipped r \<and> csv_item r = Inr it"
proof -
  from parse_csv_distinct [OF p] m have "lookup_items invs k = its"
    by (simp add: lookup_items_def)
  with parse_csv_groups [OF p, of k]
  have "map_err csv_item [r\<leftarrow>rows. \<not> csv_skipped r \<and> KStr (csv_iid r) = k] = Inr its"
    by (auto simp: lookup_items_def)
  from map_err_source [OF this i] show ?thesis by auto
qed

lemma parse_json_item_source:
  assumes p: "parse_json [] xs = Inr invs" and m: "(k, its) \<in> set invs" and i: "it \<in> set its"
  shows "\<exists>x\<in>set xs. \<exists>y\<in>set (element_items x). json_item y = Inr it"
proof -
  from parse_json_items [OF p m i]
  obtain x n k' lst where x: "x \<in> set xs" and e: "json_entry n x = Inr (k', lst)"
    and l: "it \<in> set lst" by auto
  from json_entry_items [OF e] have "map_err json_item (element_items x) = Inr lst" by blast
  from map_err_source [OF this l] x show ?thesis by blast
qed

text \<open>
  What the CSV branch does with any sequence of records: a row is left out, without an
  error and without a synthesized id, exactly when it fails the test of the code, so an
  error can only come from the other rows; every other row contributes exactly one line
  item, appended under its derived id in file order: the list stored under a key is the
  list of the items of the rows with that derived id, in the order of the file, and the
  keys are the derived ids of those rows. For the records of \<open>csv.DictReader\<close> the rows left
  out are the rows whose \<open>invoice_id\<close> and \<open>id\<close> are both empty or absent.
\<close>

theorem csv_rows_grouped_by_id:
  "(\<forall>e. parse_invoices_from_data (CsvData rows) = Inl e
         \<longleftrightarrow> map_err csv_item [r\<leftarrow>rows. \<not> csv_skipped r] = Inl e)
   \<and> (parse_invoices_from_data (CsvData rows) = Inr invs \<longrightarrow>
        distinct (map fst invs)
      \<and> fst ` set invs = (\<lambda>r. KStr (csv_iid r)) ` {r \<in> set rows. \<not> csv_skipped r}
      \<and> (\<forall>k. map_err csv_item [r\<leftarrow>rows. \<not> csv_skipped r \<and> KStr (csv_iid r) = k]
               = Inr (lookup_items invs k)))
   \<and> ((\<forall>k\<in>{''invoice_id'', ''id''}. \<forall>v. map_of r k = Some v \<longrightarrow> v = SNone \<or> (\<exists>s. v = SStr s)) \<longrightarrow>
        (csv_skipped r \<longleftrightarrow> csv_blank r))"
proof (intro conjI allI impI)
  assume "\<forall>k\<in>{''invoice_id'', ''id''}. \<forall>v. map_of r k = Some v \<longrightarrow> v = SNone \<or> (\<exists>s. v = SStr s)"
  then show "csv_skipped r \<longleftrightarrow> csv_blank r"
    by (rule csv_skipped_untyped)
next
  fix e
  show "parse_invoices_from_data (CsvData rows) = Inl e
         \<longleftrightarrow> map_err csv_item [r\<leftarrow>rows. \<not> csv_skipped r] = Inl e"
    by (simp add: parse_csv_error)
next
  assume "parse_invoices_from_data (CsvData rows) = Inr invs"
  then have p: "parse_csv [] rows = Inr invs" by simp
  from parse_csv_distinct [OF p] show "distinct (map fst invs)" by simp
  from parse_csv_keys [OF p]
  show "fst ` set invs = (\<lambda>r. KStr (csv_iid r)) ` {r \<in> set rows. \<not> csv_skipped r}" by simp
  fix k
  from parse_csv_groups [OF p, of k]
  show "map_err csv_item [r\<leftarrow>rows. \<not> csv_skipped r \<and> KStr (csv_iid r) = k]
               = Inr (lookup_items invs k)"
    by (auto simp: lookup_items_def)
qed

theorem csv_rows_grouped_by_id_witness:
  "parse_invoices_from_data (CsvData
      [[(''invoice_id'', SStr ''A''), (''product'', SStr ''p''), (''qty'', SStr ''2'')],
       [(''invoice_id'', SStr ''''), (''qty'', SStr ''x'')],
       [(''id'', SStr ''B'')],
       [(''invoice_id'', SStr ''A''), (''name'', SStr ''q''), (''price'', SStr ''9.99'')]])
    = Inr [(KStr ''A'',
             [\<lparr>product = Atom (SStr ''p''), price = Atom (SInt 0), qty = Atom (SInt 2)\<rparr>,
              \<lparr>product = Atom (SStr ''q''), price = Atom (SStr ''9.99''), qty = Atom (SInt 1)\<rparr>]),
           (KStr ''B'',
             [\<lparr>product = Atom (SStr ''''), price = Atom (SInt 0), qty = Atom (SInt 1)\<rparr>])]
   \<and> distinct [KStr ''A'', KStr ''B'']"
proof -
  let ?rows = "[[(''invoice_id'', SStr ''A''), (''product'', SStr ''p''), (''qty'', SStr ''2'')],
       [(''invoice_id'', SStr ''''), (''qty'', SStr ''x'')],
       [(''id'', SStr ''B'')],
       [(''invoice_id'', SStr ''A''), (''name'', SStr ''q''), (''price'', SStr ''9.99'')]]"
  let ?invs = "[(KStr ''A'',
             [\<lparr>product = Atom (SStr ''p''), price = Atom (SInt 0), qty = Atom (SInt 2)\<rparr>,
              \<lparr>product = Atom (SStr ''q''), price = Atom (SStr ''9.99''), qty = Atom (SInt 1)\<rparr>]),
           (KStr ''B'',
             [\<lparr>product = Atom (SStr ''''), price = Atom (SInt 0), qty = Atom (SInt 1)\<rparr>])]"
  have h: "parse_invoices_from_data (CsvData ?rows) = Inr ?invs" by code_simp
  from csv_rows_grouped_by_id [of ?rows ?invs "[]"] h have "distinct (map fst ?invs)" by blast
  with h show ?thesis by simp
qed

section \<open>Properties of file discovery and of the file name\<close>

lemma map_insort_key: "map f (insort_key f x xs) = insort (f x) (map f xs)"
  by (induction xs) auto

lemma map_sort_key: "map f (sort_key f xs) = sort (map f xs)"
  by (induction xs) (auto simp: map_insort_key)

lemma not_both_ext: "has_ext CSV_EXT f \<Longrightarrow> \<not> has_ext JSON_EXT f"
  by (auto simp: has_ext_def CSV_EXT_def JSON_EXT_def)

lemma collect_data_files_eq:
  "collect_data_files fs (cs, js) =
     (cs @ map name (filter (has_ext CSV_EXT) fs), js @ map name (filter (has_ext JSON_EXT) fs))"
  by (induction fs arbitrary: cs js) (auto dest: not_both_ext)

lemma sorted_files: "map name (filter P (sort_key name es)) = sort (map name (filter P es))"
  by (simp add: filter_sort map_sort_key)

lemma path_key_posix: "(\<lambda>f. path_key Posix (name f)) = name"
  by (simp add: fun_eq_iff)

lemma sorted_by_path_key:
  "sorted (map (path_key plat) (map name (sort_key (\<lambda>f. path_key plat (name f)) es)))"
proof -
  have "map (path_key plat) (map name (sort_key (\<lambda>f. path_key plat (name f)) es))
          = map (\<lambda>f. path_key plat (name f)) (sort_key (\<lambda>f. path_key plat (name f)) es)"
    by simp
  then show ?thesis by (simp only: sorted_sort_key)
qed

text \<open>
  The order of \<open>string\<close> is the order of Python's \<open>str\<close>: the first character that differs
  decides, by its code point, with upper case before lower case.
\<close>

lemma string_order_by_code_point:
  "([] :: string) \<le> t"
  "(a # s \<le> b # t) = ((of_char a :: nat) < of_char b \<or> a = b \<and> s \<le> t)"
  "(a # s \<le> []) = False"
  by (simp_all add: less_char_def)

lemma safe_char_allowed: "py_isalnum (safe_char c) \<or> safe_char c = CHR ''-'' \<or> safe_char c = CHR ''_''"
  by (simp add: safe_char_def)

section \<open>Properties of the interactive shell\<close>

lemma select_option_skip:
  "\<not> in_range N s \<Longrightarrow>
     select_option N (s # es) =
       (case select_option N es of (r, rest, ev) \<Rightarrow> (r, rest, Prompt # Retry # ev))"
  by (auto simp: in_range_def split: option.splits)

lemma select_option_accept:
  "read_choice s = Some n \<Longrightarrow> 1 \<le> n \<Longrightarrow> n \<le> int N \<Longrightarrow>
     select_option N (s # es) = (Inr (nat (n - 1)), es, [Prompt])"
  by simp

lemma select_option_bad_prefix:
  "\<forall>x\<in>set bad. \<not> in_range N x \<Longrightarrow>
     select_option N (bad @ es) =
       (case select_option N es of
          (r, rest, ev) \<Rightarrow> (r, rest, concat (map (\<lambda>x. [Prompt, Retry]) bad) @ ev))"
proof (induction bad)
  case Nil
  then show ?case by (simp split: prod.splits)
next
  case (Cons b bad)
  then have "\<not> in_range N b" and "\<forall>x\<in>set bad. \<not> in_range N x" by simp_all
  with Cons.IH show ?case
    by (simp add: select_option_skip del: select_option.simps split: prod.splits)
qed

lemma select_option_returns:
  "select_option N es = (Inr i, rest, ev) \<Longrightarrow>
     \<exists>bad s n. es = bad @ s # rest \<and> (\<forall>x\<in>set bad. \<not> in_range N x)
        \<and> read_choice s = Some n \<and> 1 \<le> n \<and> n \<le> int N \<and> int i = n - 1
        \<and> ev = concat (map (\<lambda>x. [Prompt, Retry]) bad) @ [Prompt]"
proof (induction es arbitrary: ev)
  case Nil
  then show ?case by simp
next
  case (Cons a es)
  show ?case
  proof (cases "in_range N a")
    case True
    then obtain n where n: "read_choice a = Some n" "1 \<le> n" "n \<le> int N"
      by (auto simp: in_range_def split: option.splits)
    with Cons.prems have "i = nat (n - 1)" "rest = es" "ev = [Prompt]" by simp_all
    with n show ?thesis
      by (intro exI [of _ "[]"] exI [of _ a] exI [of _ n]) simp
  next
    case False
    with Cons.prems obtain ev' where s: "select_option N es = (Inr i, rest, ev')"
      and ev: "ev = Prompt # Retry # ev'"
      by (auto simp: select_option_skip simp del: select_option.simps split: prod.splits)
    from Cons.IH [OF s] obtain bad s n where
      "es = bad @ s # rest" "\<forall>x\<in>set bad. \<not> in_range N x"
      "read_choice s = Some n" "1 \<le> n" "n \<le> int N" "int i = n - 1"
      "ev' = concat (map (\<lambda>x. [Prompt, Retry]) bad) @ [Prompt]" by blast
    with False ev show ?thesis
      by (intro exI [of _ "a # bad"] exI [of _ s] exI [of _ n]) simp
  qed
qed

lemma select_option_fails:
  "select_option N es = (Inl x, rest, ev) \<Longrightarrow>
     x = EOFError \<and> rest = [] \<and> (\<forall>s\<in>set es. \<not> in_range N s)"
proof (induction es arbitrary: ev)
  case Nil
  then show ?case by simp
next
  case (Cons a es)
  show ?case
  proof (cases "in_range N a")
    case True
    with Cons.prems show ?thesis by (auto simp: in_range_def split: option.splits)
  next
    case False
    with Cons.prems obtain ev' where "select_option N es = (Inl x, rest, ev')"
      by (auto simp: select_option_skip simp del: select_option.simps split: prod.splits)
    from Cons.IH [OF this] False show ?thesis by simp
  qed
qed










section \<open>The claims\<close>

text \<open>
  Claim C1, as stated: in both branches every line item of the result has an integer
  \<open>qty\<close>. The JSON branch applies no conversion: the string \<open>"2"\<close> stays a string.
\<close>

theorem json_qty_not_coerced:
  "parse_invoices_from_data (JsonData (PList
       [PDict [(''invoice_id'', Atom (SStr ''A'')), (''qty'', Atom (SStr ''2''))]]))
     = Inr [(KStr ''A'',
             [\<lparr>product = Atom (SStr ''''), price = Atom (SInt 0), qty = Atom (SStr ''2'')\<rparr>])]
   \<and> \<not> all_qty_int [(KStr ''A'',
             [\<lparr>product = Atom (SStr ''''), price = Atom (SInt 0), qty = Atom (SStr ''2'')\<rparr>])]"
  by code_simp

text \<open>
  Claim C1, amended. In the CSV branch \<open>qty\<close> of every line item is the integer that
  \<open>int()\<close> gives for the row's \<open>qty\<close> (else \<open>quantity\<close>, else 1). In the JSON branch \<open>qty\<close> is
  the value of the item-like object unchanged (\<open>qty\<close>, else \<open>quantity\<close>, else 1), so it is
  an integer whenever the source value is one. In both branches \<open>price\<close> is the source
  value unchanged (else 0), so it keeps its type. A JSON root that is not an array gives
  the placeholder item with \<open>qty\<close> 1 and \<open>price\<close> 0.
\<close>

theorem qty_int_in_csv_price_unchanged:
  "(parse_invoices_from_data (CsvData rows) = Inr invs \<longrightarrow>
      all_qty_int invs
    \<and> (\<forall>k its it. (k, its) \<in> set invs \<and> it \<in> set its \<longrightarrow>
         (\<exists>r\<in>set rows. \<exists>n.
            py_int (row_get_default r ''qty'' (row_get_default r ''quantity'' (SInt 1))) = Inr n
          \<and> qty it = Atom (SInt n)
          \<and> price it = Atom (row_get_default r ''price'' (SInt 0)))))
   \<and> (parse_invoices_from_data (JsonData (PList xs)) = Inr invs' \<longrightarrow>
        (\<forall>k its it. (k, its) \<in> set invs' \<and> it \<in> set its \<longrightarrow>
           (\<exists>x\<in>set xs. \<exists>d. PDict d \<in> set (element_items x)
              \<and> qty it = dict_get_default d ''qty'' (dict_get_default d ''quantity'' (Atom (SInt 1)))
              \<and> price it = dict_get_default d ''price'' (Atom (SInt 0)))))
   \<and> ((\<forall>ys. doc \<noteq> PList ys) \<longrightarrow>
        parse_invoices_from_data (JsonData doc)
          = Inr [(KStr ''default'',
                  [\<lparr>product = Atom (SStr ''-''), price = Atom (SInt 0), qty = Atom (SInt 1)\<rparr>])])"
proof (intro conjI impI)
  assume a: "parse_invoices_from_data (CsvData rows) = Inr invs"
  then have p: "parse_csv [] rows = Inr invs" by simp
  show src: "\<forall>k its it. (k, its) \<in> set invs \<and> it \<in> set its \<longrightarrow>
         (\<exists>r\<in>set rows. \<exists>n.
            py_int (row_get_default r ''qty'' (row_get_default r ''quantity'' (SInt 1))) = Inr n
          \<and> qty it = Atom (SInt n)
          \<and> price it = Atom (row_get_default r ''price'' (SInt 0)))"
  proof (intro allI impI)
    fix k its it
    assume "(k, its) \<in> set invs \<and> it \<in> set its"
    with parse_csv_item_source [OF p] obtain r where "r \<in> set rows" "csv_item r = Inr it"
      by blast
    with csv_item_fields show "\<exists>r\<in>set rows. \<exists>n.
            py_int (row_get_default r ''qty'' (row_get_default r ''quantity'' (SInt 1))) = Inr n
          \<and> qty it = Atom (SInt n)
          \<and> price it = Atom (row_get_default r ''price'' (SInt 0))" by blast
  qed
  show "all_qty_int invs"
    unfolding all_qty_int_def list_all_iff
  proof (intro ballI)
    fix kv it
    assume "kv \<in> set invs" "it \<in> set (snd kv)"
    then have "(fst kv, snd kv) \<in> set invs \<and> it \<in> set (snd kv)" by simp
    with src obtain n where "qty it = Atom (SInt n)" by blast
    then show "is_int_value (qty it)" by simp
  qed
next
  assume "parse_invoices_from_data (JsonData (PList xs)) = Inr invs'"
  then have p: "parse_json [] xs = Inr invs'" by simp
  show "\<forall>k its it. (k, its) \<in> set invs' \<and> it \<in> set its \<longrightarrow>
           (\<exists>x\<in>set xs. \<exists>d. PDict d \<in> set (element_items x)
              \<and> qty it = dict_get_default d ''qty'' (dict_get_default d ''quantity'' (Atom (SInt 1)))
              \<and> price it = dict_get_default d ''price'' (Atom (SInt 0)))"
  proof (intro allI impI)
    fix k its it
    assume "(k, its) \<in> set invs' \<and> it \<in> set its"
    with parse_json_item_source [OF p] obtain x y where x: "x \<in> set xs"
      and y: "y \<in> set (element_items x)" and j: "json_item y = Inr it" by blast
    from json_item_fields [OF j] y x
    show "\<exists>x\<in>set xs. \<exists>d. PDict d \<in> set (element_items x)
              \<and> qty it = dict_get_default d ''qty'' (dict_get_default d ''quantity'' (Atom (SInt 1)))
              \<and> price it = dict_get_default d ''price'' (Atom (SInt 0))" by blast
  qed
next
  assume "\<forall>ys. doc \<noteq> PList ys"
  then show "parse_invoices_from_data (JsonData doc)
          = Inr [(KStr ''default'',
                  [\<lparr>product = Atom (SStr ''-''), price = Atom (SInt 0), qty = Atom (SInt 1)\<rparr>])]"
    by (cases doc) (simp_all add: default_item_def)
qed

theorem qty_int_in_csv_price_unchanged_witness:
  "parse_invoices_from_data (CsvData
       [[(''invoice_id'', SStr ''A''), (''qty'', SStr ''2''),
         (''price'', SFloat (999 / 100) CHR ''9'' ''.99'')]])
     = Inr [(KStr ''A'',
             [\<lparr>product = Atom (SStr ''''),
               price = Atom (SFloat (999 / 100) CHR ''9'' ''.99''),
               qty = Atom (SInt 2)\<rparr>])]
   \<and> all_qty_int [(KStr ''A'',
             [\<lparr>product = Atom (SStr ''''),
               price = Atom (SFloat (999 / 100) CHR ''9'' ''.99''),
               qty = Atom (SInt 2)\<rparr>])]
   \<and> parse_invoices_from_data (JsonData (PList
       [PDict [(''id'', Atom (SStr ''J'')), (''quantity'', Atom (SInt 3))]]))
     = Inr [(KStr ''J'',
             [\<lparr>product = Atom (SStr ''''), price = Atom (SInt 0), qty = Atom (SInt 3)\<rparr>])]
   \<and> parse_invoices_from_data (JsonData (Atom (SInt 5)))
     = Inr [(KStr ''default'',
             [\<lparr>product = Atom (SStr ''-''), price = Atom (SInt 0), qty = Atom (SInt 1)\<rparr>])]"
proof -
  let ?rows = "[[(''invoice_id'', SStr ''A''), (''qty'', SStr ''2''),
         (''price'', SFloat (999 / 100) CHR ''9'' ''.99'')]]"
  let ?invs = "[(KStr ''A'',
             [\<lparr>product = Atom (SStr ''''),
               price = Atom (SFloat (999 / 100) CHR ''9'' ''.99''),
               qty = Atom (SInt 2)\<rparr>])]"
  let ?xs = "[PDict [(''id'', Atom (SStr ''J'')), (''quantity'', Atom (SInt 3))]]"
  let ?invs' = "[(KStr ''J'',
             [\<lparr>product = Atom (SStr ''''), price = Atom (SInt 0), qty = Atom (SInt 3)\<rparr>])]"
  have h1: "parse_invoices_from_data (CsvData ?rows) = Inr ?invs" by code_simp
  have h2: "parse_invoices_from_data (JsonData (PList ?xs)) = Inr ?invs'" by code_simp
  have h3: "\<forall>ys. Atom (SInt 5) \<noteq> PList ys" by simp
  from qty_int_in_csv_price_unchanged [of ?rows ?invs ?xs ?invs' "Atom (SInt 5)"] h1 h3
  have "all_qty_int ?invs
      \<and> parse_invoices_from_data (JsonData (Atom (SInt 5)))
     = Inr [(KStr ''default'',
             [\<lparr>product = Atom (SStr ''-''), price = Atom (SInt 0), qty = Atom (SInt 1)\<rparr>])]"
    by blast
  with h1 h2 show ?thesis by blast
qed

text \<open>
  Claim C2 says that every key of the result is a non-empty string. A JSON array element
  whose \<open>invoice_id\<close> is the number 1001 is stored under the number 1001: the JSON branch
  wraps only the synthesized id in \<open>str()\<close>, where the CSV branch wraps the whole
  expression. \<open>main\<close> then fails on such an id when it builds the file name, because it
  iterates over the id as over a string.
\<close>

theorem json_numeric_id_is_key:
  "parse_invoices_from_data (JsonData (PList
       [PDict [(''invoice_id'', Atom (SInt 1001)),
               (''items'', PList [PDict [(''product'', Atom (SStr ''Widget'')),
                                         (''price'', Atom (SInt 5)),
                                         (''qty'', Atom (SInt 2))]])]]))
     = Inr [(KNum 1001,
             [\<lparr>product = Atom (SStr ''Widget''), price = Atom (SInt 5), qty = Atom (SInt 2)\<rparr>])]
   \<and> is_str_key (KNum 1001) = False
   \<and> output_path (KNum 1001) = Inl TypeError"
  by code_simp

text \<open>
  Claim C3, as stated: the number of keys is the number of elements with a non-colliding
  derived id plus the number of elements that received a synthesized id. Here the second
  and the third element both receive the synthesized id \<open>"1"\<close>, which is also the explicit id
  of the first: two elements received a synthesized id, and the result has one key.
\<close>

theorem json_synthesized_id_collides:
  "parse_invoices_from_data (JsonData (PList
       [PDict [(''id'', Atom (SStr ''1'')), (''name'', Atom (SStr ''a''))],
        PDict [(''name'', Atom (SStr ''b''))],
        PDict [(''name'', Atom (SStr ''c''))]]))
     = Inr [(KStr ''1'',
             [\<lparr>product = Atom (SStr ''c''), price = Atom (SInt 0), qty = Atom (SInt 1)\<rparr>])]
   \<and> map has_explicit_id
       [PDict [(''id'', Atom (SStr ''1'')), (''name'', Atom (SStr ''a''))],
        PDict [(''name'', Atom (SStr ''b''))],
        PDict [(''name'', Atom (SStr ''c''))]] = [True, False, False]"
  by code_simp

text \<open>
  Claim C3, amended. For every JSON array the normalizer accepts: no element is skipped,
  each is stored under its derived id (its \<open>invoice_id\<close>, else its \<open>id\<close>, else the text of
  the current number of keys); the keys of the result are the derived ids, so the number
  of keys is the number of distinct derived ids; when no explicit id is the text of a
  number of invoices, that is the number of distinct explicit ids plus the number of
  elements that received a synthesized id; storing an element adds a key exactly when
  its derived id is not yet a key, and otherwise replaces the items stored under that id
  (no merging), leaving the other entries as they were.
\<close>

theorem json_keys_are_distinct_ids:
  "parse_invoices_from_data (JsonData (PList xs)) = Inr res \<longrightarrow>
     distinct (map fst res)
   \<and> length (derived_ids [] xs) = length xs
   \<and> set (map fst res) = set (derived_ids [] xs)
   \<and> length res = card (set (derived_ids [] xs))
   \<and> ((\<forall>x\<in>set xs. \<forall>k. explicit_key x = Some k \<longrightarrow> \<not> is_count_key k) \<longrightarrow>
        length res = card (set (List.map_filter explicit_key xs))
                       + length [x\<leftarrow>xs. \<not> has_explicit_id x])
   \<and> (\<forall>ys x zs. xs = ys @ x # zs \<longrightarrow>
        (\<exists>m d k lst.
           parse_invoices_from_data (JsonData (PList ys)) = Inr m
         \<and> x = PDict d
         \<and> key_of (json_iid (length m) d) = Inr k
         \<and> json_entry (length m) x = Inr (k, lst)
         \<and> parse_invoices_from_data (JsonData (PList (ys @ [x]))) = Inr (AList.update k lst m)
         \<and> map_of (AList.update k lst m) k = Some lst
         \<and> (\<forall>k'. k' \<noteq> k \<longrightarrow> map_of (AList.update k lst m) k' = map_of m k')
         \<and> length (AList.update k lst m) = (if k \<in> fst ` set m then length m else Suc (length m))
         \<and> k \<in> fst ` set res))"
proof (intro impI conjI allI)
  assume "parse_invoices_from_data (JsonData (PList xs)) = Inr res"
  then have p: "parse_json [] xs = Inr res" by simp
  from parse_json_distinct [OF p] show d: "distinct (map fst res)" by simp
  from parse_json_ids [OF p] show l: "length (derived_ids [] xs) = length xs"
    and s: "set (map fst res) = set (derived_ids [] xs)" by simp_all
  from d have "card (set (map fst res)) = length (map fst res)" by (rule distinct_card)
  with s show "length res = card (set (derived_ids [] xs))" by simp
next
  assume "parse_invoices_from_data (JsonData (PList xs)) = Inr res"
    and n: "\<forall>x\<in>set xs. \<forall>k. explicit_key x = Some k \<longrightarrow> \<not> is_count_key k"
  then have p: "parse_json [] xs = Inr res" by simp
  from json_key_count [OF p n]
  show "length res = card (set (List.map_filter explicit_key xs))
                       + length [x\<leftarrow>xs. \<not> has_explicit_id x]" .
next
  fix ys x zs
  assume a: "parse_invoices_from_data (JsonData (PList xs)) = Inr res" and xs: "xs = ys @ x # zs"
  then have p: "parse_json [] (ys @ x # zs) = Inr res" by simp
  from parse_json_element [OF p] obtain m k lst where
    m: "parse_json [] ys = Inr m" and e: "json_entry (length m) x = Inr (k, lst)"
    and u: "parse_json [] (ys @ [x]) = Inr (AList.update k lst m)"
    and r: "parse_json (AList.update k lst m) zs = Inr res" by blast
  from json_entry_items [OF e] obtain d where d: "x = PDict d"
    and k: "key_of (json_iid (length m) d) = Inr k" by blast
  from parse_json_keys_kept [OF r] have kr: "k \<in> fst ` set res" by (auto simp: dom_update)
  show "\<exists>m d k lst.
           parse_invoices_from_data (JsonData (PList ys)) = Inr m
         \<and> x = PDict d
         \<and> key_of (json_iid (length m) d) = Inr k
         \<and> json_entry (length m) x = Inr (k, lst)
         \<and> parse_invoices_from_data (JsonData (PList (ys @ [x]))) = Inr (AList.update k lst m)
         \<and> map_of (AList.update k lst m) k = Some lst
         \<and> (\<forall>k'. k' \<noteq> k \<longrightarrow> map_of (AList.update k lst m) k' = map_of m k')
         \<and> length (AList.update k lst m) = (if k \<in> fst ` set m then length m else Suc (length m))
         \<and> k \<in> fst ` set res"
    using m e u d k kr
    by (intro exI [of _ m] exI [of _ d] exI [of _ k] exI [of _ lst])
       (simp add: update_conv' length_update)
qed

theorem json_keys_are_distinct_ids_witness:
  "parse_invoices_from_data (JsonData (PList
       [PDict [(''id'', Atom (SStr ''a''))],
        PDict [(''name'', Atom (SStr ''b''))],
        PDict [(''id'', Atom (SStr ''a'')), (''name'', Atom (SStr ''c''))]]))
     = Inr [(KStr ''a'',
             [\<lparr>product = Atom (SStr ''c''), price = Atom (SInt 0), qty = Atom (SInt 1)\<rparr>]),
            (KStr ''1'',
             [\<lparr>product = Atom (SStr ''b''), price = Atom (SInt 0), qty = Atom (SInt 1)\<rparr>])]
   \<and> derived_ids []
       [PDict [(''id'', Atom (SStr ''a''))],
        PDict [(''name'', Atom (SStr ''b''))],
        PDict [(''id'', Atom (SStr ''a'')), (''name'', Atom (SStr ''c''))]]
     = [KStr ''a'', KStr ''1'', KStr ''a'']
   \<and> card (set [KStr ''a'', KStr ''1'', KStr ''a'']) = 2"
proof -
  let ?xs = "[PDict [(''id'', Atom (SStr ''a''))],
        PDict [(''name'', Atom (SStr ''b''))],
        PDict [(''id'', Atom (SStr ''a'')), (''name'', Atom (SStr ''c''))]]"
  let ?res = "[(KStr ''a'',
             [\<lparr>product = Atom (SStr ''c''), price = Atom (SInt 0), qty = Atom (SInt 1)\<rparr>]),
            (KStr ''1'',
             [\<lparr>product = Atom (SStr ''b''), price = Atom (SInt 0), qty = Atom (SInt 1)\<rparr>])]"
  have h: "parse_invoices_from_data (JsonData (PList ?xs)) = Inr ?res" by code_simp
  have d: "derived_ids [] ?xs = [KStr ''a'', KStr ''1'', KStr ''a'']" by code_simp
  have n: "\<forall>x\<in>set ?xs. \<forall>k. explicit_key x = Some k \<longrightarrow> \<not> is_count_key k"
    by (simp add: json_iid_def dict_get_def is_count_key_def parse_digits_def is_digit_def)
  from json_keys_are_distinct_ids [of ?xs ?res] h n
  have "length ?res = card (set (derived_ids [] ?xs))
      \<and> length ?res = card (set (List.map_filter explicit_key ?xs))
                         + length [x\<leftarrow>?xs. \<not> has_explicit_id x]" by blast
  with d have "card (set [KStr ''a'', KStr ''1'', KStr ''a'']) = 2" by simp
  with h d show ?thesis by blast
qed

text \<open>
  Claim C4 says that the rows left out are the rows whose \<open>invoice_id\<close> and \<open>id\<close> are both
  empty or absent, and that every other row contributes one line item. \<open>load_csv\<close> reads
  the file with pandas when it can be imported, and with \<open>csv.DictReader\<close> otherwise. With
  pandas the file \<open>invoice_id,product,price,qty\<close> / \<open>,Gadget,5,1\<close> gives a record whose
  \<open>invoice_id\<close> is NaN: the row is blank, and it is kept, under the id \<open>nan\<close>. The file
  \<open>invoice_id,product,price,qty\<close> / \<open>0,Widget,5,1\<close> gives a record whose \<open>invoice_id\<close> is the
  integer 0: the row is not blank, and it is left out. With \<open>csv.DictReader\<close> the same
  two files give the strings \<open>""\<close> and \<open>"0"\<close>: the first row is left out and the second is
  kept under the id \<open>0\<close>, as the claim says.
\<close>

theorem csv_pandas_blank_kept_zero_dropped:
  "csv_blank [(''invoice_id'', SNaN), (''product'', SStr ''Gadget''),
              (''price'', SInt 5), (''qty'', SInt 1)]
   \<and> parse_invoices_from_data (CsvData
        [[(''invoice_id'', SNaN), (''product'', SStr ''Gadget''),
          (''price'', SInt 5), (''qty'', SInt 1)]])
      = Inr [(KStr ''nan'',
              [\<lparr>product = Atom (SStr ''Gadget''), price = Atom (SInt 5), qty = Atom (SInt 1)\<rparr>])]
   \<and> \<not> csv_blank [(''invoice_id'', SInt 0), (''product'', SStr ''Widget''),
              (''price'', SInt 5), (''qty'', SInt 1)]
   \<and> parse_invoices_from_data (CsvData
        [[(''invoice_id'', SInt 0), (''product'', SStr ''Widget''),
          (''price'', SInt 5), (''qty'', SInt 1)]])
      = Inr []
   \<and> csv_blank [(''invoice_id'', SStr ''''), (''product'', SStr ''Gadget''),
              (''price'', SStr ''5''), (''qty'', SStr ''1'')]
   \<and> parse_invoices_from_data (CsvData
        [[(''invoice_id'', SStr ''''), (''product'', SStr ''Gadget''),
          (''price'', SStr ''5''), (''qty'', SStr ''1'')]])
      = Inr []
   \<and> \<not> csv_blank [(''invoice_id'', SStr ''0''), (''product'', SStr ''Widget''),
              (''price'', SStr ''5''), (''qty'', SStr ''1'')]
   \<and> parse_invoices_from_data (CsvData
        [[(''invoice_id'', SStr ''0''), (''product'', SStr ''Widget''),
          (''price'', SStr ''5''), (''qty'', SStr ''1'')]])
      = Inr [(KStr ''0'',
              [\<lparr>product = Atom (SStr ''Widget''), price = Atom (SStr ''5''), qty = Atom (SInt 1)\<rparr>])]"
  by code_simp



text \<open>
  Claim C6, as stated: the files are sorted by name in case-sensitive code-point order.
  \<open>sorted\<close> compares the paths as pathlib orders them on the host; on Windows that is by
  lower-cased text, so \<open>a.csv\<close> comes before \<open>B.csv\<close>, which code-point order puts first.
\<close>

theorem discovery_windows_order_ignores_case:
  "get_data_files Windows
       (Directory [Entry ''B.csv'' True, Entry ''_x.csv'' True, Entry ''a.csv'' True])
     = Inr ([''_x.csv'', ''a.csv'', ''B.csv''], [])
   \<and> \<not> sorted [''_x.csv'', ''a.csv'', ''B.csv'']
   \<and> sort [''_x.csv'', ''a.csv'', ''B.csv''] = [''B.csv'', ''_x.csv'', ''a.csv'']
   \<and> get_data_files Posix
       (Directory [Entry ''B.csv'' True, Entry ''_x.csv'' True, Entry ''a.csv'' True])
     = Inr ([''B.csv'', ''_x.csv'', ''a.csv''], [])"
  by code_simp

text \<open>
  Claim C6, amended. A missing directory gives empty lists and no error. For a directory,
  the CSV files, the JSON files and the templates are each the names of the entries that
  are regular files and whose suffix, lower-cased, is \<open>.csv\<close>, \<open>.json\<close> or \<open>.html\<close>, every such
  entry and nothing else, in the order of pathlib on the host: ascending by name, by
  code point and case-sensitive on a POSIX host (there the list is the sorted list of the
  names), by the lower-cased name on Windows. The list of data files is the CSV files
  followed by the JSON files.
\<close>

theorem discovery_sorted_in_host_order:
  "get_data_files plat Missing = Inr ([], [])
   \<and> get_templates plat Missing = Inr []
   \<and> get_data_files plat (Directory es)
       = Inr (map name (sort_key (\<lambda>f. path_key plat (name f))
                  [f\<leftarrow>es. is_file f \<and> py_lower (suffix (name f)) = ''.csv'']),
              map name (sort_key (\<lambda>f. path_key plat (name f))
                  [f\<leftarrow>es. is_file f \<and> py_lower (suffix (name f)) = ''.json'']))
   \<and> get_templates plat (Directory es)
       = Inr (map name (sort_key (\<lambda>f. path_key plat (name f))
                  [f\<leftarrow>es. is_file f \<and> py_lower (suffix (name f)) = ''.html'']))
   \<and> get_data_files Posix (Directory es)
       = Inr (sort (map name [f\<leftarrow>es. is_file f \<and> py_lower (suffix (name f)) = ''.csv'']),
              sort (map name [f\<leftarrow>es. is_file f \<and> py_lower (suffix (name f)) = ''.json'']))
   \<and> get_templates Posix (Directory es)
       = Inr (sort (map name [f\<leftarrow>es. is_file f \<and> py_lower (suffix (name f)) = ''.html'']))
   \<and> path_key Posix nm = nm
   \<and> path_key Windows nm = py_lower nm
   \<and> (get_data_files plat dir = Inr files \<longrightarrow>
        sorted (map (path_key plat) (fst files)) \<and> sorted (map (path_key plat) (snd files))
      \<and> data_files_of files = fst files @ snd files
      \<and> (\<forall>n\<in>set (fst files). \<exists>es' f. dir = Directory es' \<and> f \<in> set es' \<and> name f = n
             \<and> is_file f \<and> py_lower (suffix n) = ''.csv'')
      \<and> (\<forall>n\<in>set (snd files). \<exists>es' f. dir = Directory es' \<and> f \<in> set es' \<and> name f = n
             \<and> is_file f \<and> py_lower (suffix n) = ''.json''))
   \<and> (get_templates plat tdir = Inr ts \<longrightarrow>
        sorted (map (path_key plat) ts)
      \<and> (\<forall>n\<in>set ts. \<exists>es' f. tdir = Directory es' \<and> f \<in> set es' \<and> name f = n
             \<and> is_file f \<and> py_lower (suffix n) = ''.html''))"
proof -
  have d: "get_data_files plat (Directory es)
       = Inr (map name (sort_key (\<lambda>f. path_key plat (name f))
                  [f\<leftarrow>es. is_file f \<and> py_lower (suffix (name f)) = ''.csv'']),
              map name (sort_key (\<lambda>f. path_key plat (name f))
                  [f\<leftarrow>es. is_file f \<and> py_lower (suffix (name f)) = ''.json'']))"
    for plat es
    by (simp add: collect_data_files_eq filter_sort has_ext_def [abs_def] CSV_EXT_def JSON_EXT_def)
  have t: "get_templates plat (Directory es)
       = Inr (map name (sort_key (\<lambda>f. path_key plat (name f))
                  [f\<leftarrow>es. is_file f \<and> py_lower (suffix (name f)) = ''.html'']))"
    for plat es
    by (simp add: has_ext_def [abs_def] HTML_EXT_def)
  have dp: "get_data_files Posix (Directory es)
       = Inr (sort (map name [f\<leftarrow>es. is_file f \<and> py_lower (suffix (name f)) = ''.csv'']),
              sort (map name [f\<leftarrow>es. is_file f \<and> py_lower (suffix (name f)) = ''.json'']))"
    unfolding d path_key_posix by (simp add: map_sort_key)
  have tp: "get_templates Posix (Directory es)
       = Inr (sort (map name [f\<leftarrow>es. is_file f \<and> py_lower (suffix (name f)) = ''.html'']))"
    unfolding t path_key_posix by (simp add: map_sort_key)
  have df: "get_data_files plat dir = Inr files \<longrightarrow>
        sorted (map (path_key plat) (fst files)) \<and> sorted (map (path_key plat) (snd files))
      \<and> data_files_of files = fst files @ snd files
      \<and> (\<forall>n\<in>set (fst files). \<exists>es' f. dir = Directory es' \<and> f \<in> set es' \<and> name f = n
             \<and> is_file f \<and> py_lower (suffix n) = ''.csv'')
      \<and> (\<forall>n\<in>set (snd files). \<exists>es' f. dir = Directory es' \<and> f \<in> set es' \<and> name f = n
             \<and> is_file f \<and> py_lower (suffix n) = ''.json'')"
  proof (cases dir)
    case (Directory es')
    show ?thesis unfolding Directory d
      by (auto simp: data_files_of_def sorted_by_path_key simp del: map_map)
  qed (auto simp: data_files_of_def)
  have tf: "get_templates plat tdir = Inr ts \<longrightarrow>
        sorted (map (path_key plat) ts)
      \<and> (\<forall>n\<in>set ts. \<exists>es' f. tdir = Directory es' \<and> f \<in> set es' \<and> name f = n
             \<and> is_file f \<and> py_lower (suffix n) = ''.html'')"
  proof (cases tdir)
    case (Directory es')
    show ?thesis unfolding Directory t
      by (auto simp: sorted_by_path_key simp del: map_map)
  qed auto
  from d [of plat es] t [of plat es] dp tp df tf show ?thesis by simp
qed

theorem discovery_sorted_in_host_order_witness:
  "get_data_files Windows (Directory [Entry ''b.CSV'' True, Entry ''a.json'' True,
        Entry ''B.csv'' True, Entry ''d.csv'' False, Entry ''x.txt'' True, Entry ''a.csv'' True])
     = Inr ([''a.csv'', ''b.CSV'', ''B.csv''], [''a.json''])
   \<and> data_files_of ([''a.csv'', ''b.CSV'', ''B.csv''], [''a.json''])
       = [''a.csv'', ''b.CSV'', ''B.csv'', ''a.json'']
   \<and> sorted (map (path_key Windows) [''a.csv'', ''b.CSV'', ''B.csv''])
   \<and> get_data_files Posix (Directory [Entry ''b.CSV'' True, Entry ''a.json'' True,
        Entry ''B.csv'' True, Entry ''d.csv'' False, Entry ''x.txt'' True, Entry ''a.csv'' True])
     = Inr ([''B.csv'', ''a.csv'', ''b.CSV''], [''a.json''])
   \<and> sorted [''B.csv'', ''a.csv'', ''b.CSV'']
   \<and> get_templates Posix
        (Directory [Entry ''t.html'' True, Entry ''T.HTML'' True, Entry ''u.html'' False])
     = Inr [''T.HTML'', ''t.html'']"
proof -
  let ?d = "Directory [Entry ''b.CSV'' True, Entry ''a.json'' True, Entry ''B.csv'' True,
        Entry ''d.csv'' False, Entry ''x.txt'' True, Entry ''a.csv'' True]"
  let ?t = "Directory [Entry ''t.html'' True, Entry ''T.HTML'' True, Entry ''u.html'' False]"
  have w: "get_data_files Windows ?d = Inr ([''a.csv'', ''b.CSV'', ''B.csv''], [''a.json''])"
    by code_simp
  have h: "get_data_files Posix ?d = Inr ([''B.csv'', ''a.csv'', ''b.CSV''], [''a.json''])"
    by code_simp
  have g: "get_templates Posix ?t = Inr [''T.HTML'', ''t.html'']" by code_simp
  from discovery_sorted_in_host_order
         [of Windows "[]" "[]" ?d "([''a.csv'', ''b.CSV'', ''B.csv''], [''a.json''])"
             ?t "[''T.HTML'', ''t.html'']"] w
  have ws: "sorted (map (path_key Windows) [''a.csv'', ''b.CSV'', ''B.csv''])
      \<and> data_files_of ([''a.csv'', ''b.CSV'', ''B.csv''], [''a.json''])
           = [''a.csv'', ''b.CSV'', ''B.csv''] @ [''a.json'']"
    by simp
  from discovery_sorted_in_host_order
         [of Posix "[]" "[]" ?d "([''B.csv'', ''a.csv'', ''b.CSV''], [''a.json''])"
             ?t "[''T.HTML'', ''t.html'']"] h
  have "sorted (map (path_key Posix) [''B.csv'', ''a.csv'', ''b.CSV''])" by simp
  then have ps: "sorted [''B.csv'', ''a.csv'', ''b.CSV'']" by simp
  from w h g ws ps show ?thesis by simp
qed

text \<open>
  Claim C7. For an invoice id \<open>s\<close> the output path is \<open>output/invoice_<sanitized-id>.pdf\<close>,
  where the sanitized id is \<open>s\<close> with every character that is not alphanumeric, \<open>-\<close> or \<open>_\<close>
  replaced by \<open>_\<close> (same length, the other characters unchanged); that is the path a
  finished run saves to; and \<open>inv/2024:01\<close> gives \<open>invoice_inv_2024_01.pdf\<close>.
\<close>

theorem output_name_sanitized:
  "output_path (KStr s)
     = Inr (''output/invoice_''
            @ map (\<lambda>c. if py_isalnum c \<or> c = CHR ''-'' \<or> c = CHR ''_'' then c else CHR ''_'') s
            @ ''.pdf'')
   \<and> (safe_id (KStr s) = Inr sid \<longrightarrow>
        length sid = length s
      \<and> (\<forall>i<length s.
           sid ! i = (if py_isalnum (s ! i) \<or> s ! i = CHR ''-'' \<or> s ! i = CHR ''_''
                      then s ! i else CHR ''_''))
      \<and> (\<forall>c\<in>set sid. py_isalnum c \<or> c = CHR ''-'' \<or> c = CHR ''_''))
   \<and> (emit e template_path invs (KStr s) = (Finished, ev) \<longrightarrow>
        ev = [Saved (''output/invoice_'' @ map safe_char s @ ''.pdf''), Opened])
   \<and> output_path (KStr ''inv/2024:01'') = Inr ''output/invoice_inv_2024_01.pdf''"
proof (intro conjI impI)
  show "output_path (KStr s)
     = Inr (''output/invoice_''
            @ map (\<lambda>c. if py_isalnum c \<or> c = CHR ''-'' \<or> c = CHR ''_'' then c else CHR ''_'') s
            @ ''.pdf'')"
    by (simp add: output_path_def safe_char_def [abs_def])
  show "output_path (KStr ''inv/2024:01'') = Inr ''output/invoice_inv_2024_01.pdf''"
    by code_simp
next
  assume a: "safe_id (KStr s) = Inr sid"
  then have sid: "sid = map safe_char s" by simp
  show "length sid = length s" by (simp add: sid)
  show "\<forall>i<length s.
           sid ! i = (if py_isalnum (s ! i) \<or> s ! i = CHR ''-'' \<or> s ! i = CHR ''_''
                      then s ! i else CHR ''_'')"
    by (simp add: sid safe_char_def)
  show "\<forall>c\<in>set sid. py_isalnum c \<or> c = CHR ''-'' \<or> c = CHR ''_''"
    using safe_char_allowed by (auto simp: sid)
next
  assume "emit e template_path invs (KStr s) = (Finished, ev)"
  then show "ev = [Saved (''output/invoice_'' @ map safe_char s @ ''.pdf''), Opened]"
    by (auto simp: emit_def output_path_def split: sum.splits)
qed

theorem output_name_sanitized_witness:
  "safe_id (KStr ''inv/2024:01'') = Inr ''inv_2024_01''
   \<and> length ''inv_2024_01'' = length ''inv/2024:01''
   \<and> output_path (KStr ''inv/2024:01'') = Inr ''output/invoice_inv_2024_01.pdf''"
proof -
  have h: "safe_id (KStr ''inv/2024:01'') = Inr ''inv_2024_01''" by code_simp
  from output_name_sanitized [of "''inv/2024:01''" "''inv_2024_01''"] h
  have "length ''inv_2024_01'' = length ''inv/2024:01''
      \<and> output_path (KStr ''inv/2024:01'') = Inr ''output/invoice_inv_2024_01.pdf''"
    by blast
  with h show ?thesis by blast
qed

text \<open>
  Claim C8. For every list length \<open>N\<close> and every sequence of entries: \<open>select_option\<close>
  returns only at an entry that parses as an integer \<open>n\<close> with \<open>1 \<le> n \<le> N\<close>, all entries
  before it being rejected, and then returns \<open>n - 1\<close>; an entry that does not parse, or
  parses as a number below 1 or above \<open>N\<close>, only prints the hint and prompts again, the
  rest of the run being that of \<open>select_option\<close> with the same \<open>N\<close> on the remaining entries;
  any number of rejected entries may come before the accepted one; and the only way
  not to return is the end of the input.
\<close>

theorem select_option_valid_choice:
  "(select_option N es = (Inr i, rest, ev) \<longrightarrow>
      (\<exists>bad s n. es = bad @ s # rest \<and> (\<forall>x\<in>set bad. \<not> in_range N x)
         \<and> read_choice s = Some n \<and> 1 \<le> n \<and> n \<le> int N \<and> int i = n - 1
         \<and> ev = concat (map (\<lambda>x. [Prompt, Retry]) bad) @ [Prompt]))
   \<and> ((read_choice t = None \<or> (\<exists>n. read_choice t = Some n \<and> (n \<le> 0 \<or> int N < n))) \<longrightarrow>
        select_option N (t # ts) =
          (case select_option N ts of (r, rest', ev') \<Rightarrow> (r, rest', Prompt # Retry # ev')))
   \<and> ((\<forall>x\<in>set bad. \<not> in_range N x) \<and> read_choice s = Some n \<and> 1 \<le> n \<and> n \<le> int N \<longrightarrow>
        select_option N (bad @ s # post)
          = (Inr (nat (n - 1)), post, concat (map (\<lambda>x. [Prompt, Retry]) bad) @ [Prompt]))
   \<and> (select_option N es = (Inl x, rest, ev) \<longrightarrow>
        x = EOFError \<and> (\<forall>s\<in>set es. \<not> in_range N s))"
proof (intro conjI impI)
  assume "select_option N es = (Inr i, rest, ev)"
  from select_option_returns [OF this]
  show "\<exists>bad s n. es = bad @ s # rest \<and> (\<forall>x\<in>set bad. \<not> in_range N x)
         \<and> read_choice s = Some n \<and> 1 \<le> n \<and> n \<le> int N \<and> int i = n - 1
         \<and> ev = concat (map (\<lambda>x. [Prompt, Retry]) bad) @ [Prompt]" .
next
  assume "read_choice t = None \<or> (\<exists>n. read_choice t = Some n \<and> (n \<le> 0 \<or> int N < n))"
  then have "\<not> in_range N t" by (auto simp: in_range_def)
  then show "select_option N (t # ts) =
          (case select_option N ts of (r, rest', ev') \<Rightarrow> (r, rest', Prompt # Retry # ev'))"
    by (rule select_option_skip)
next
  assume a: "(\<forall>x\<in>set bad. \<not> in_range N x) \<and> read_choice s = Some n \<and> 1 \<le> n \<and> n \<le> int N"
  then have "select_option N (s # post) = (Inr (nat (n - 1)), post, [Prompt])"
    by (simp add: select_option_accept del: select_option.simps)
  with a show "select_option N (bad @ s # post)
          = (Inr (nat (n - 1)), post, concat (map (\<lambda>x. [Prompt, Retry]) bad) @ [Prompt])"
    by (simp add: select_option_bad_prefix del: select_option.simps)
next
  assume "select_option N es = (Inl x, rest, ev)"
  from select_option_fails [OF this]
  show "x = EOFError" and "\<forall>s\<in>set es. \<not> in_range N s" by simp_all
qed

theorem select_option_valid_choice_witness:
  "select_option 3 [''abc'', ''0'', ''-1'', ''4'', '' 2 '', ''1'']
     = (Inr 1, [''1''], [Prompt, Retry, Prompt, Retry, Prompt, Retry, Prompt, Retry, Prompt])
   \<and> read_choice ''abc'' = None
   \<and> read_choice ''0'' = Some 0
   \<and> read_choice ''-1'' = Some (- 1)
   \<and> read_choice ''4'' = Some 4
   \<and> read_choice '' 2 '' = Some 2
   \<and> select_option 3 [''abc'', ''4''] = (Inl EOFError, [], [Prompt, Retry, Prompt, Retry, Prompt])"
proof -
  let ?bad = "[''abc'', ''0'', ''-1'', ''4'']"
  have r: "read_choice ''abc'' = None" "read_choice ''0'' = Some 0"
    "read_choice ''-1'' = Some (- 1)" "read_choice ''4'' = Some 4" "read_choice '' 2 '' = Some 2"
    by code_simp+
  have b: "\<forall>x\<in>set ?bad. \<not> in_range 3 x" by (simp add: in_range_def r)
  have e: "select_option 3 [''abc'', ''4''] = (Inl EOFError, [], [Prompt, Retry, Prompt, Retry, Prompt])"
    by (simp add: r)
  from select_option_valid_choice [of 3 _ _ _ _ _ _  ?bad "'' 2 ''" 2 "[''1'']"] b r
  have "select_option 3 (?bad @ '' 2 '' # [''1''])
          = (Inr (nat (2 - 1)), [''1''], concat (map (\<lambda>x. [Prompt, Retry]) ?bad) @ [Prompt])"
    by simp
  then have "select_option 3 [''abc'', ''0'', ''-1'', ''4'', '' 2 '', ''1'']
     = (Inr 1, [''1''], [Prompt, Retry, Prompt, Retry, Prompt, Retry, Prompt, Retry, Prompt])"
    by simp
  with r e show ?thesis by simp
qed




text \<open>
  Claim C10. In the CSV branch every key of the result maps to a non-empty list of line
  items. The JSON branch does not guarantee this: an array element whose \<open>items\<close> is the
  empty list gives an invoice with no line item.
\<close>

theorem csv_lists_nonempty:
  "(parse_invoices_from_data (CsvData rows) = Inr invs \<longrightarrow>
      (\<forall>k its. (k, its) \<in> set invs \<longrightarrow> its \<noteq> []))
   \<and> parse_invoices_from_data (JsonData (PList [PDict [(''items'', PList [])]]))
       = Inr [(KStr ''0'', [])]"
proof (intro conjI impI allI)
  fix k its
  assume "parse_invoices_from_data (CsvData rows) = Inr invs" and m: "(k, its) \<in> set invs"
  then have p: "parse_csv [] rows = Inr invs" by simp
  from parse_csv_distinct [OF p] m have lk: "lookup_items invs k = its"
    by (simp add: lookup_items_def)
  from m have "k \<in> fst ` set invs" by force
  with parse_csv_keys [OF p] obtain r where r: "r \<in> set rows" "\<not> csv_skipped r" "k = KStr (csv_iid r)"
    by auto
  from parse_csv_groups [OF p, of k] lk
  have "map_err csv_item [r\<leftarrow>rows. \<not> csv_skipped r \<and> KStr (csv_iid r) = k] = Inr its"
    by (auto simp: lookup_items_def)
  from map_err_length [OF this] have "length its = length [r\<leftarrow>rows. \<not> csv_skipped r \<and> KStr (csv_iid r) = k]" .
  moreover from r have "r \<in> set [r\<leftarrow>rows. \<not> csv_skipped r \<and> KStr (csv_iid r) = k]" by simp
  ultimately show "its \<noteq> []" by (metis length_0_conv empty_iff list.set(1))
next
  show "parse_invoices_from_data (JsonData (PList [PDict [(''items'', PList [])]]))
       = Inr [(KStr ''0'', [])]"
    by code_simp
qed

theorem csv_lists_nonempty_witness:
  "parse_invoices_from_data (CsvData [[(''id'', SStr ''B'')]])
     = Inr [(KStr ''B'',
             [\<lparr>product = Atom (SStr ''''), price = Atom (SInt 0), qty = Atom (SInt 1)\<rparr>])]
   \<and> [\<lparr>product = Atom (SStr ''''), price = Atom (SInt 0), qty = Atom (SInt 1)\<rparr>] \<noteq> []"
proof -
  let ?its = "[\<lparr>product = Atom (SStr ''''), price = Atom (SInt 0), qty = Atom (SInt 1)\<rparr>]"
  have h: "parse_invoices_from_data (CsvData [[(''id'', SStr ''B'')]]) = Inr [(KStr ''B'', ?its)]"
    by code_simp
  from csv_lists_nonempty [of "[[(''id'', SStr ''B'')]]" "[(KStr ''B'', ?its)]"] h
  have "\<forall>k its. (k, its) \<in> set [(KStr ''B'', ?its)] \<longrightarrow> its \<noteq> []" by blast
  then have "?its \<noteq> []" by simp
  with h show ?thesis by simp
qed

end
